theory Spec2Isabelle
  imports Complex_Main
begin

section \<open>JavaScript numbers\<close>

text \<open>
  A JavaScript number is an IEEE 754 double: a finite value, one of the two infinities or
  \<^verbatim>\<open>NaN\<close>.  A finite double is kept as the real number it denotes, so \<^verbatim>\<open>-0\<close> and
  \<^verbatim>\<open>0\<close> are one value (no operation used here tells them apart, and both print as
  \<^verbatim>\<open>0\<close>).  An operation returns its exact result rounded to the nearest double, ties to
  the even significand, and an infinity when the rounded result leaves the range.
  \<open>expo x\<close> is the binary exponent of \<open>x\<close> (at least \<open>-1022\<close>, where the subnormal
  numbers begin), \<open>ulp x\<close> the distance between neighbouring doubles at \<open>x\<close>.
\<close>

datatype double = Fin real | PInf | NInf | NaN

definition expo :: "real \<Rightarrow> int" where
  "expo x = max \<lfloor>log 2 \<bar>x\<bar>\<rfloor> (- 1022)"

definition ulp :: "real \<Rightarrow> real" where
  "ulp x = 2 powr (real_of_int (expo x) - 52)"

definition roundEven :: "real \<Rightarrow> int" where
  "roundEven y =
     (let f = \<lfloor>y\<rfloor>
      in if y - real_of_int f < 1 / 2 then f
         else if 1 / 2 < y - real_of_int f then f + 1
         else if even f then f else f + 1)"

definition rnd :: "real \<Rightarrow> real" where
  "rnd x = ulp x * real_of_int (roundEven (x / ulp x))"

definition toNum :: "real \<Rightarrow> double" where
  "toNum x =
     (if 2 ^ 1024 \<le> rnd x then PInf
      else if rnd x \<le> - (2 ^ 1024) then NInf
      else Fin (rnd x))"

text \<open>The operators \<^verbatim>\<open>+\<close> and \<^verbatim>\<open>-\<close>, \<^verbatim>\<open>Math.pow(x, 2)\<close>, \<^verbatim>\<open>Math.sqrt\<close> and the
  comparison \<^verbatim>\<open>>\<close>.  \<^verbatim>\<open>Math.pow(x, 2)\<close> is taken to return the rounded square, as
  \<^verbatim>\<open>Math.sqrt\<close> returns the rounded root.\<close>

fun d_add :: "double \<Rightarrow> double \<Rightarrow> double" where
  "d_add (Fin a) (Fin b) = toNum (a + b)"
| "d_add (Fin a) PInf = PInf"
| "d_add (Fin a) NInf = NInf"
| "d_add (Fin a) NaN = NaN"
| "d_add PInf (Fin b) = PInf"
| "d_add PInf PInf = PInf"
| "d_add PInf NInf = NaN"
| "d_add PInf NaN = NaN"
| "d_add NInf (Fin b) = NInf"
| "d_add NInf PInf = NaN"
| "d_add NInf NInf = NInf"
| "d_add NInf NaN = NaN"
| "d_add NaN b = NaN"

fun d_sub :: "double \<Rightarrow> double \<Rightarrow> double" where
  "d_sub (Fin a) (Fin b) = toNum (a - b)"
| "d_sub (Fin a) PInf = NInf"
| "d_sub (Fin a) NInf = PInf"
| "d_sub (Fin a) NaN = NaN"
| "d_sub PInf (Fin b) = PInf"
| "d_sub PInf PInf = NaN"
| "d_sub PInf NInf = PInf"
| "d_sub PInf NaN = NaN"
| "d_sub NInf (Fin b) = NInf"
| "d_sub NInf PInf = NInf"
| "d_sub NInf NInf = NaN"
| "d_sub NInf NaN = NaN"
| "d_sub NaN b = NaN"

fun d_pow2 :: "double \<Rightarrow> double" where
  "d_pow2 (Fin a) = toNum (a * a)"
| "d_pow2 PInf = PInf"
| "d_pow2 NInf = PInf"
| "d_pow2 NaN = NaN"

fun d_sqrt :: "double \<Rightarrow> double" where
  "d_sqrt (Fin a) = (if a < 0 then NaN else toNum (sqrt a))"
| "d_sqrt PInf = PInf"
| "d_sqrt NInf = NaN"
| "d_sqrt NaN = NaN"

fun d_gt :: "double \<Rightarrow> double \<Rightarrow> bool" where
  "d_gt (Fin a) (Fin b) = (b < a)"
| "d_gt (Fin a) PInf = False"
| "d_gt (Fin a) NInf = True"
| "d_gt PInf (Fin b) = True"
| "d_gt PInf PInf = False"
| "d_gt PInf NInf = True"
| "d_gt NInf b = False"
| "d_gt NaN b = False"
| "d_gt a NaN = False"

text \<open>Truthiness of a number: \<^verbatim>\<open>0\<close> and \<^verbatim>\<open>NaN\<close> are falsy.\<close>

definition d_truthy :: "double \<Rightarrow> bool" where
  "d_truthy d \<longleftrightarrow> d \<noteq> Fin 0 \<and> d \<noteq> NaN"

section \<open>JavaScript values, objects and schemas\<close>

text \<open>
  The editor component \<^verbatim>\<open>Flow.tsx\<close> works on plain JavaScript values.  A value of
  type \<^verbatim>\<open>any\<close> is a \<open>jv\<close>.  An object is the association list of its own properties,
  in insertion order, with unique keys in every value the program builds; a property
  bound to \<^verbatim>\<open>undefined\<close> is not represented (the values come from JSON, which has
  none).  \<open>JBuiltin name\<close> is the member \<open>name\<close> of \<^verbatim>\<open>Object.prototype\<close>, which every
  plain object inherits: a built-in function, or for \<^verbatim>\<open>__proto__\<close> the prototype
  itself; it has no enumerable property of its own.
\<close>

datatype jv =
    JNull
  | JBool bool
  | JNum double
  | JStr string
  | JArr "jv list"
  | JObj "(string \<times> jv) list"
  | JBuiltin string

type_synonym obj = "(string \<times> jv) list"

datatype error = TypeError | RemoteFailure

text \<open>The property names of \<^verbatim>\<open>Object.prototype\<close>.\<close>

definition objectPrototypeNames :: "string list" where
  "objectPrototypeNames =
     [''constructor'', ''hasOwnProperty'', ''isPrototypeOf'', ''propertyIsEnumerable'',
      ''toLocaleString'', ''toString'', ''valueOf'', ''__proto__'', ''__defineGetter__'',
      ''__defineSetter__'', ''__lookupGetter__'', ''__lookupSetter__'']"

text \<open>
  What the members of the other built-in objects are (the methods of strings, arrays,
  numbers and Booleans, the properties of the built-in functions) depends on the engine.
  A \<open>runtime\<close> answers a property read that no own property answers on a value other
  than a plain object or \<^verbatim>\<open>null\<close>; the functions below take it as the parameter \<open>rt\<close>.
\<close>

type_synonym runtime = "jv \<Rightarrow> string \<Rightarrow> error + jv option"

text \<open>\<^verbatim>\<open>ObjectSchema\<close>: \<^verbatim>\<open>type\<close>, \<^verbatim>\<open>properties\<close> (may be missing) and the
  truthiness of \<^verbatim>\<open>additionalProperties\<close>.\<close>

datatype schema =
  Schema (stype: "string option")
         (properties: "(string \<times> schema) list option")
         (additionalProperties: bool)

text \<open>\<^verbatim>\<open>Number.prototype.toString\<close> on a non-negative integer.\<close>

fun toString :: "nat \<Rightarrow> string" where
  "toString n =
     (if n < 10 then [''0123456789'' ! n]
      else toString (n div 10) @ [''0123456789'' ! (n mod 10)])"

declare toString.simps [simp del]

text \<open>Reading a printed number back, digit by digit; the proofs use it to tell two
  printed numbers apart.\<close>

definition digitValue :: "char \<Rightarrow> nat" where
  "digitValue c = of_char c - 48"

definition fromDigits :: "string \<Rightarrow> nat" where
  "fromDigits s = foldl (\<lambda>acc c. 10 * acc + digitValue c) 0 s"

text \<open>The own enumerable properties of a value: what a spread \<^verbatim>\<open>{...v}\<close> copies.\<close>

fun ownEntries :: "jv \<Rightarrow> obj" where
  "ownEntries (JObj kvs) = kvs"
| "ownEntries (JArr vs) = zip (map toString [0..<length vs]) vs"
| "ownEntries (JStr s) = zip (map toString [0..<length s]) (map (\<lambda>c. JStr [c]) s)"
| "ownEntries JNull = []"
| "ownEntries (JBool b) = []"
| "ownEntries (JNum r) = []"
| "ownEntries (JBuiltin name) = []"

text \<open>The property read \<^verbatim>\<open>o[key]\<close> on a plain object: the own property, or else the
  member of \<^verbatim>\<open>Object.prototype\<close> of that name; \<open>None\<close> is \<^verbatim>\<open>undefined\<close>.\<close>

definition member :: "obj \<Rightarrow> string \<Rightarrow> jv option" where
  "member kvs key =
     (case map_of kvs key of
        Some v \<Rightarrow> Some v
      | None \<Rightarrow> if key \<in> set objectPrototypeNames then Some (JBuiltin key) else None)"

text \<open>The property read \<^verbatim>\<open>v[key]\<close> on any value: it throws on \<^verbatim>\<open>null\<close>.\<close>

fun getProp :: "runtime \<Rightarrow> jv \<Rightarrow> string \<Rightarrow> error + jv option" where
  "getProp rt JNull key = Inl TypeError"
| "getProp rt (JObj kvs) key = Inr (member kvs key)"
| "getProp rt (JArr vs) key =
     (if key = ''length'' then Inr (Some (JNum (Fin (real (length vs)))))
      else case map_of (ownEntries (JArr vs)) key of
             Some v \<Rightarrow> Inr (Some v)
           | None \<Rightarrow> rt (JArr vs) key)"
| "getProp rt (JStr s) key =
     (if key = ''length'' then Inr (Some (JNum (Fin (real (length s)))))
      else case map_of (ownEntries (JStr s)) key of
             Some v \<Rightarrow> Inr (Some v)
           | None \<Rightarrow> rt (JStr s) key)"
| "getProp rt v key = rt v key"

text \<open>Defining an own property (what a spread does for each key it copies), the
  assignment \<^verbatim>\<open>o[key] = v\<close> and the spread \<^verbatim>\<open>{...a, ...b}\<close>.  Assigning to
  \<^verbatim>\<open>__proto__\<close> runs the setter every plain object inherits: it may change the prototype
  of \<^verbatim>\<open>o\<close> and adds no property.\<close>

fun obj_set :: "obj \<Rightarrow> string \<Rightarrow> jv \<Rightarrow> obj" where
  "obj_set [] key v = [(key, v)]"
| "obj_set ((k, w) # rest) key v =
     (if k = key then (key, v) # rest else (k, w) # obj_set rest key v)"

definition assign :: "obj \<Rightarrow> string \<Rightarrow> jv \<Rightarrow> obj" where
  "assign inputData key v = (if key = ''__proto__'' then inputData else obj_set inputData key v)"

definition spread :: "obj \<Rightarrow> obj \<Rightarrow> obj" where
  "spread a b = fold (\<lambda>(key, v) acc. obj_set acc key v) b a"

section \<open>The input composer\<close>

text \<open>
  \<^verbatim>\<open>getNestedData\<close> (inside \<^verbatim>\<open>prepareNodeInputData\<close>): the \<^verbatim>\<open>forEach\<close> over
  \<^verbatim>\<open>Object.keys(schema.properties)\<close> is a fold over the declared keys that stops at the
  first exception; the recursive call receives the declared sub-schema and whatever value
  is stored under the key.
\<close>

lemma schema_size_map_of:
  "map_of props key = Some sub \<Longrightarrow> size sub < Suc (size_list (size_prod (\<lambda>_. 0) size) props)"
proof (induction props)
  case Nil
  then show ?case by simp
next
  case (Cons p props)
  then show ?case by (cases p) (auto split: if_splits)
qed

lemma schema_size_property:
  "properties s = Some props \<Longrightarrow> map_of props key = Some sub \<Longrightarrow> size sub < size s"
  using schema_size_map_of [of props key sub] by (cases s) auto

function getNestedData :: "runtime \<Rightarrow> schema \<Rightarrow> jv \<Rightarrow> error + obj" where
  "getNestedData rt schema vals =
     (case (case properties schema of
              None \<Rightarrow> Inr []
            | Some props \<Rightarrow>
                fold (\<lambda>key acc.
                        case acc of
                          Inl e \<Rightarrow> Inl e
                        | Inr inputData \<Rightarrow>
                            (case getProp rt vals key of
                               Inl e \<Rightarrow> Inl e
                             | Inr None \<Rightarrow> Inr inputData
                             | Inr (Some v) \<Rightarrow>
                                 (case map_of props key of
                                    None \<Rightarrow> Inl TypeError
                                  | Some sub \<Rightarrow>
                                      if stype sub = Some ''object''
                                      then (case getNestedData rt sub v of
                                              Inl e \<Rightarrow> Inl e
                                            | Inr nested \<Rightarrow> Inr (assign inputData key (JObj nested)))
                                      else Inr (assign inputData key v))))
                     (map fst props) (Inr [])) of
        Inl e \<Rightarrow> Inl e
      | Inr inputData \<Rightarrow>
          if additionalProperties schema then Inr (spread inputData (ownEntries vals))
          else Inr inputData)"
  by pat_completeness auto
termination
  by (relation "measure (\<lambda>(rt, s, v). size s)") (auto intro: schema_size_property)

declare getNestedData.simps [simp del]

text \<open>The declared sub-schema of a key, and one round of the \<^verbatim>\<open>forEach\<close> by itself, as
  the proofs use it.\<close>

definition declared :: "schema \<Rightarrow> string \<Rightarrow> schema option" where
  "declared s key = (case properties s of None \<Rightarrow> None | Some props \<Rightarrow> map_of props key)"

definition declaredStep ::
  "runtime \<Rightarrow> (string \<times> schema) list \<Rightarrow> jv \<Rightarrow> string \<Rightarrow> error + obj \<Rightarrow> error + obj" where
  "declaredStep rt props vals key acc =
     (case acc of
        Inl e \<Rightarrow> Inl e
      | Inr inputData \<Rightarrow>
          (case getProp rt vals key of
             Inl e \<Rightarrow> Inl e
           | Inr None \<Rightarrow> Inr inputData
           | Inr (Some v) \<Rightarrow>
               (case map_of props key of
                  None \<Rightarrow> Inl TypeError
                | Some sub \<Rightarrow>
                    if stype sub = Some ''object''
                    then (case getNestedData rt sub v of
                            Inl e \<Rightarrow> Inl e
                          | Inr nested \<Rightarrow> Inr (assign inputData key (JObj nested)))
                    else Inr (assign inputData key v))))"

section \<open>The graph model\<close>

text \<open>
  Field names follow the source; where two record types of the source share a field name
  the model puts a short prefix on it (\<open>nid\<close>, \<open>eid\<close>, \<open>gid\<close> for the three \<^verbatim>\<open>id\<close>
  fields, and so on).  A handle is \<^verbatim>\<open>string | null\<close>, with \<open>None\<close> for \<^verbatim>\<open>null\<close>.
\<close>

record position =
  pos_x :: double
  pos_y :: double

text \<open>An entry of \<^verbatim>\<open>node.data.connections\<close>; also the toolkit's \<^verbatim>\<open>Connection\<close>.\<close>

record connection =
  source :: string
  sourceHandle :: "string option"
  target :: string
  targetHandle :: "string option"

text \<open>\<^verbatim>\<open>Edge<CustomEdgeData>\<close>: a connection with an identifier, the selection flag and
  the edge data (the marker carries the same colour and is left out).\<close>

record edge = connection +
  eid :: string
  edge_selected :: bool
  edgeColor :: string
  sourcePos :: "position option"

text \<open>\<^verbatim>\<open>CustomNodeData\<close>, without the closure \<^verbatim>\<open>setHardcodedValues\<close>.\<close>

record customNodeData =
  blockType :: string
  title :: string
  inputSchema :: "schema option"
  outputSchema :: "schema option"
  hardcodedValues :: obj
  connections :: "connection list"
  isOutputOpen :: bool
  status :: "string option"
  output_data :: "jv option"
  block_id :: string
  backend_id :: "string option"

record node =
  nid :: string
  position :: position
  data :: customNodeData
  selected :: bool

text \<open>\<^verbatim>\<open>Block\<close>, an entry of the block catalog.\<close>

record block =
  bid :: string
  bname :: string
  b_inputSchema :: "schema option"
  b_outputSchema :: "schema option"

text \<open>The persisted graph of the remote service, and the payload \<^verbatim>\<open>saveAgent\<close>
  assembles (its \<^verbatim>\<open>id\<close> is \<^verbatim>\<open>undefined\<close> before the first save).\<close>

record nodeStub =
  stub_name :: string
  stub_node_id :: string

record link =
  source_id :: string
  sink_id :: string
  source_name :: string
  sink_name :: string

record graphNode =
  gn_id :: string
  gn_block_id :: string
  input_default :: obj
  input_nodes :: "nodeStub list"
  output_nodes :: "nodeStub list"
  metadata_position :: position

record graph =
  gid :: string
  gname :: string
  gdescription :: string
  is_template :: bool
  gnodes :: "graphNode list"
  glinks :: "link list"

record graphPayload =
  p_id :: "string option"
  p_name :: string
  p_description :: string
  p_nodes :: "graphNode list"
  p_links :: "link list"

datatype apiCall =
    createGraph graphPayload
  | createTemplate graphPayload
  | updateGraph string graphPayload
  | updateTemplate string graphPayload

text \<open>A command as \<^verbatim>\<open>history.push\<close> receives it: its type and payload (the undo and
  redo closures are left out).\<close>

datatype command =
    ADD_NODE node
  | DELETE_NODE node
  | ADD_EDGE edge
  | DELETE_EDGE edge
  | UPDATE_NODE_POSITION string position position

text \<open>
  The object behind \<^verbatim>\<open>initialPositionRef\<close>: the positions stored under node
  identifiers, and the position installed as its prototype, if any (assigning to the key
  \<^verbatim>\<open>__proto__\<close> installs the assigned object as prototype instead of adding a
  property).
\<close>

record positionsRef =
  ownPositions :: "string \<rightharpoonup> position"
  protoPosition :: "position option"

text \<open>What a read of the object yields: nothing, a position, a number (the \<^verbatim>\<open>x\<close> or
  \<^verbatim>\<open>y\<close> of an installed prototype) or a member of \<^verbatim>\<open>Object.prototype\<close>.\<close>

datatype slot = Absent | Stored position | Coordinate double | Inherited

definition readRef :: "positionsRef \<Rightarrow> string \<Rightarrow> slot" where
  "readRef r key =
     (if key = ''__proto__''
      then (case protoPosition r of None \<Rightarrow> Inherited | Some p \<Rightarrow> Stored p)
      else case ownPositions r key of
             Some p \<Rightarrow> Stored p
           | None \<Rightarrow>
               (case protoPosition r of
                  Some p \<Rightarrow>
                    if key = ''x'' then Coordinate (pos_x p)
                    else if key = ''y'' then Coordinate (pos_y p)
                    else if key \<in> set objectPrototypeNames then Inherited else Absent
                | None \<Rightarrow> if key \<in> set objectPrototypeNames then Inherited else Absent))"

definition writeRef :: "positionsRef \<Rightarrow> string \<Rightarrow> position \<Rightarrow> positionsRef" where
  "writeRef r key p =
     (if key = ''__proto__'' then r\<lparr>protoPosition := Some p\<rparr>
      else r\<lparr>ownPositions := (ownPositions r)(key \<mapsto> p)\<rparr>)"

definition deleteRef :: "positionsRef \<Rightarrow> string \<Rightarrow> positionsRef" where
  "deleteRef r key = r\<lparr>ownPositions := (ownPositions r)(key := None)\<rparr>"

fun truthy :: "slot \<Rightarrow> bool" where
  "truthy Absent = False"
| "truthy (Stored p) = True"
| "truthy (Coordinate d) = d_truthy d"
| "truthy Inherited = True"

text \<open>
  The state of \<^verbatim>\<open>FlowEditor\<close>: its \<^verbatim>\<open>useState\<close> cells and its two refs.  The
  history module is not among the sources; \<open>history\<close> is the sequence of commands handed
  to \<^verbatim>\<open>history.push\<close>, oldest first.  A handler reads the cells of the state it is
  given (its closure) and returns the state after all queued updates have run.
\<close>

record state =
  nodes :: "node list"
  edges :: "edge list"
  nodeId :: nat
  availableNodes :: "block list"
  savedAgent :: "graph option"
  agentDescription :: string
  agentName :: string
  copiedNodes :: "node list"
  copiedEdges :: "edge list"
  initialPositionRef :: positionsRef
  isDragging :: bool
  history :: "command list"

definition MINIMUM_MOVE_BEFORE_LOG :: double where
  "MINIMUM_MOVE_BEFORE_LOG = Fin 50"

text \<open>How a template string prints a handle.\<close>

definition handleString :: "string option \<Rightarrow> string" where
  "handleString h = (case h of None \<Rightarrow> ''null'' | Some s \<Rightarrow> s)"

subsection \<open>Connection lists\<close>

datatype action = Add | Remove

definition updateNodesOnEdgeChange :: "edge \<Rightarrow> action \<Rightarrow> node list \<Rightarrow> node list" where
  "updateNodesOnEdgeChange e act nds =
     map (\<lambda>node.
            if nid node = source e \<or> nid node = target e
            then node\<lparr>data := (data node)\<lparr>connections :=
                   (case act of
                      Add \<Rightarrow> connections (data node) @
                               [\<lparr>source = source e, sourceHandle = sourceHandle e,
                                 target = target e, targetHandle = targetHandle e\<rparr>]
                    | Remove \<Rightarrow>
                        filter (\<lambda>conn. \<not> (source conn = source e \<and> target conn = target e
                                           \<and> sourceHandle conn = sourceHandle e
                                           \<and> targetHandle conn = targetHandle e))
                               (connections (data node)))\<rparr>\<rparr>
            else node) nds"

text \<open>\<^verbatim>\<open>getOutputType\<close>.  \<^verbatim>\<open>outputSchema.properties[handleId]\<close> finds a declared
  property or a member of \<^verbatim>\<open>Object.prototype\<close>; such a member has no \<^verbatim>\<open>type\<close>, so
  the function returns \<^verbatim>\<open>undefined\<close>, here \<open>Inr None\<close>.  For any other handle the read of
  \<^verbatim>\<open>type\<close> throws.\<close>

definition getOutputType :: "state \<Rightarrow> string \<Rightarrow> string \<Rightarrow> error + string option" where
  "getOutputType st i handleId =
     (case find (\<lambda>node. nid node = i) (nodes st) of
        None \<Rightarrow> Inr (Some ''unknown'')
      | Some node \<Rightarrow>
          (case outputSchema (data node) of
             None \<Rightarrow> Inr (Some ''unknown'')
           | Some outSchema \<Rightarrow>
               (case properties outSchema of
                  None \<Rightarrow> Inl TypeError
                | Some props \<Rightarrow>
                    (case map_of props handleId of
                       Some p \<Rightarrow> Inr (stype p)
                     | None \<Rightarrow>
                         if handleId \<in> set objectPrototypeNames then Inr None
                         else Inl TypeError))))"

text \<open>\<^verbatim>\<open>getNodePos\<close> returns \<^verbatim>\<open>0\<close>, here \<open>None\<close>, when there is no such node.\<close>

definition getNodePos :: "state \<Rightarrow> string \<Rightarrow> position option" where
  "getNodePos st i = map_option position (find (\<lambda>node. nid node = i) (nodes st))"

text \<open>
  Modelled from the spec: \<^verbatim>\<open>addEdge\<close> belongs to the canvas toolkit and is not among
  the sources.  Duplicate wiring of the same two ports is detected structurally: the edge
  is appended unless an endpoint is empty or an edge with the same four endpoint
  components is present already (an empty handle counts as no handle).
\<close>

definition sameHandle :: "string option \<Rightarrow> string option \<Rightarrow> bool" where
  "sameHandle a b \<longleftrightarrow> a = b \<or> ((a = None \<or> a = Some []) \<and> (b = None \<or> b = Some []))"

definition connectionExists :: "edge \<Rightarrow> edge list \<Rightarrow> bool" where
  "connectionExists e eds \<longleftrightarrow>
     list_ex (\<lambda>el. source el = source e \<and> target el = target e
                \<and> sameHandle (sourceHandle el) (sourceHandle e)
                \<and> sameHandle (targetHandle el) (targetHandle e)) eds"

definition addEdge :: "edge \<Rightarrow> edge list \<Rightarrow> edge list" where
  "addEdge e eds =
     (if source e = [] \<or> target e = [] then eds
      else if connectionExists e eds then eds
      else eds @ [e])"

text \<open>
  \<^verbatim>\<open>onConnect\<close>.  The colour lookup \<^verbatim>\<open>getTypeColor\<close> of \<^verbatim>\<open>lib/utils\<close> is a
  parameter.  The updater given to \<^verbatim>\<open>setEdges\<close> pushes the command and calls
  \<^verbatim>\<open>updateNodesOnEdgeChange\<close>, which queues one update of the nodes; the
  \<^verbatim>\<open>setNodes\<close> call that follows queues a second one.
\<close>

definition onConnect :: "(string option \<Rightarrow> string) \<Rightarrow> state \<Rightarrow> connection \<Rightarrow> error + state" where
  "onConnect getTypeColor st conn =
     (case getOutputType st (source conn) (handleString (sourceHandle conn)) of
        Inl e \<Rightarrow> Inl e
      | Inr outputType \<Rightarrow>
          (let newEdge =
                 \<lparr>source = source conn, sourceHandle = sourceHandle conn,
                  target = target conn, targetHandle = targetHandle conn,
                  eid = source conn @ ''_'' @ handleString (sourceHandle conn) @ ''_''
                        @ target conn @ ''_'' @ handleString (targetHandle conn),
                  edge_selected = False,
                  edgeColor = getTypeColor outputType,
                  sourcePos = getNodePos st (source conn)\<rparr>
           in Inr (st\<lparr>edges := addEdge newEdge (edges st),
                      history := history st @ [ADD_EDGE newEdge],
                      nodes :=
                        map (\<lambda>node.
                               if nid node = target conn \<or> nid node = source conn
                               then node\<lparr>data := (data node)\<lparr>connections :=
                                      connections (data node) @
                                        [\<lparr>source = source conn, sourceHandle = sourceHandle conn,
                                          target = target conn, targetHandle = targetHandle conn\<rparr>]\<rparr>\<rparr>
                               else node)
                            (updateNodesOnEdgeChange newEdge Add (nodes st))\<rparr>)))"

text \<open>
  The \<^verbatim>\<open>remove\<close> branch of \<^verbatim>\<open>onEdgesChange\<close> for one change.  Modelled from the
  spec: \<^verbatim>\<open>applyEdgeChanges\<close> belongs to the canvas toolkit and is not among the sources;
  it removes the edge the change names from the edge set.
\<close>

definition onEdgesChange_remove :: "state \<Rightarrow> string \<Rightarrow> state" where
  "onEdgesChange_remove st i =
     (let st' = (case find (\<lambda>e. eid e = i) (edges st) of
                   None \<Rightarrow> st
                 | Some removedEdge \<Rightarrow>
                     st\<lparr>history := history st @ [DELETE_EDGE removedEdge],
                        nodes := updateNodesOnEdgeChange removedEdge Remove (nodes st)\<rparr>)
      in st'\<lparr>edges := filter (\<lambda>e. eid e \<noteq> i) (edges st)\<rparr>)"

text \<open>\<^verbatim>\<open>onEdgesDelete\<close>; as in the source, the two handle comparisons compare the
  handles of the deleted edge with themselves.\<close>

definition onEdgesDelete :: "state \<Rightarrow> edge list \<Rightarrow> state" where
  "onEdgesDelete st edgesToDelete =
     st\<lparr>nodes :=
          map (\<lambda>node.
                 node\<lparr>data := (data node)\<lparr>connections :=
                        filter (\<lambda>conn.
                                  \<not> list_ex (\<lambda>e. source e = source conn \<and> target e = target conn
                                                  \<and> sourceHandle e = sourceHandle e
                                                  \<and> targetHandle e = targetHandle e)
                                            edgesToDelete)
                               (connections (data node))\<rparr>\<rparr>)
              (nodes st)\<rparr>"

subsection \<open>Dragging\<close>

text \<open>The distance both handlers compute:
  \<^verbatim>\<open>Math.sqrt(Math.pow(newPosition.x - oldPosition.x, 2) + Math.pow(newPosition.y - oldPosition.y, 2))\<close>.\<close>

definition distanceMoved :: "position \<Rightarrow> position \<Rightarrow> double" where
  "distanceMoved newPosition oldPosition =
     d_sqrt (d_add (d_pow2 (d_sub (pos_x newPosition) (pos_x oldPosition)))
                   (d_pow2 (d_sub (pos_y newPosition) (pos_y oldPosition))))"

definition onNodesChangeStart :: "state \<Rightarrow> node \<Rightarrow> state" where
  "onNodesChangeStart st node =
     st\<lparr>initialPositionRef := writeRef (initialPositionRef st) (nid node) (position node),
        isDragging := True\<rparr>"

text \<open>
  \<^verbatim>\<open>onNodesChangeEnd\<close>.  When the read of the ref yields something that is not a
  position, its \<^verbatim>\<open>x\<close> is \<^verbatim>\<open>undefined\<close>, the distance is \<^verbatim>\<open>NaN\<close> and the comparison
  fails; the \<^verbatim>\<open>delete\<close> still runs.
\<close>

definition onNodesChangeEnd :: "state \<Rightarrow> node option \<Rightarrow> state" where
  "onNodesChangeEnd st n =
     (case n of
        None \<Rightarrow> st
      | Some node \<Rightarrow>
          (let oldPosition = readRef (initialPositionRef st) (nid node);
               newPosition = position node
           in if \<not> truthy oldPosition then st\<lparr>isDragging := False\<rparr>
              else st\<lparr>isDragging := False,
                      history :=
                        (case oldPosition of
                           Stored q \<Rightarrow>
                             if d_gt (distanceMoved newPosition q) MINIMUM_MOVE_BEFORE_LOG
                             then history st @ [UPDATE_NODE_POSITION (nid node) q newPosition]
                             else history st
                         | _ \<Rightarrow> history st),
                      initialPositionRef := deleteRef (initialPositionRef st) (nid node)\<rparr>))"

text \<open>
  The node changes the toolkit reports to \<^verbatim>\<open>onNodesChange\<close>: a removal, a position
  change (its \<^verbatim>\<open>position\<close> may be missing), a selection change, or another kind the
  handler only forwards.
\<close>

datatype nodeChange =
    RemoveChange string
  | PositionChange string "position option"
  | SelectChange string bool
  | OtherChange string

text \<open>
  Modelled from the spec: \<^verbatim>\<open>applyNodeChanges\<close> belongs to the canvas toolkit and is not
  among the sources.  It removes the nodes named by removals, moves a node to the
  position a position change carries and sets the selection flag a selection change
  carries.
\<close>

fun applyNodeChange :: "nodeChange \<Rightarrow> node list \<Rightarrow> node list" where
  "applyNodeChange (RemoveChange i) nds = filter (\<lambda>node. nid node \<noteq> i) nds"
| "applyNodeChange (PositionChange i p) nds =
     (case p of
        None \<Rightarrow> nds
      | Some newPosition \<Rightarrow>
          map (\<lambda>node. if nid node = i then node\<lparr>position := newPosition\<rparr> else node) nds)"
| "applyNodeChange (SelectChange i sel) nds =
     map (\<lambda>node. if nid node = i then node\<lparr>selected := sel\<rparr> else node) nds"
| "applyNodeChange (OtherChange i) nds = nds"

definition applyNodeChanges :: "nodeChange list \<Rightarrow> node list \<Rightarrow> node list" where
  "applyNodeChanges changes nds = fold applyNodeChange changes nds"

text \<open>
  One round of the \<^verbatim>\<open>forEach\<close> in \<^verbatim>\<open>onNodesChange\<close>.  The lookups use the nodes of
  the closure, kept in the first component; reading \<^verbatim>\<open>newPosition.x\<close> of a position
  change without a position throws.  When the read of the ref yields a truthy value that
  is not a position, its \<^verbatim>\<open>x\<close> is \<^verbatim>\<open>undefined\<close>, the distance is \<^verbatim>\<open>NaN\<close> and
  nothing is pushed.
\<close>

fun onNodesChange_step :: "node list \<Rightarrow> nodeChange \<Rightarrow> state \<Rightarrow> error + state" where
  "onNodesChange_step nds (RemoveChange i) st =
     (case find (\<lambda>node. nid node = i) nds of
        None \<Rightarrow> Inr st
      | Some removedNode \<Rightarrow> Inr (st\<lparr>history := history st @ [DELETE_NODE removedNode]\<rparr>))"
| "onNodesChange_step nds (PositionChange i p) st =
     (if isDragging st then Inr st
      else (case find (\<lambda>node. nid node = i) nds of
              None \<Rightarrow> Inr st
            | Some movedNode \<Rightarrow>
                (let oldPosition = (if truthy (readRef (initialPositionRef st) i)
                                    then readRef (initialPositionRef st) i
                                    else Stored (position movedNode))
                 in (case p of
                       None \<Rightarrow> Inl TypeError
                     | Some newPosition \<Rightarrow>
                         (case oldPosition of
                            Stored q \<Rightarrow>
                              if d_gt (distanceMoved newPosition q) MINIMUM_MOVE_BEFORE_LOG
                              then Inr (st\<lparr>history := history st
                                             @ [UPDATE_NODE_POSITION i q newPosition],
                                           initialPositionRef :=
                                             writeRef (initialPositionRef st) i newPosition\<rparr>)
                              else Inr st
                          | _ \<Rightarrow> Inr st)))))"
| "onNodesChange_step nds (SelectChange i sel) st = Inr st"
| "onNodesChange_step nds (OtherChange i) st = Inr st"

fun onNodesChange_forEach :: "node list \<Rightarrow> nodeChange list \<Rightarrow> state \<Rightarrow> error + state" where
  "onNodesChange_forEach nds [] st = Inr st"
| "onNodesChange_forEach nds (change # changes) st =
     (case onNodesChange_step nds change st of
        Inl e \<Rightarrow> Inl e
      | Inr st' \<Rightarrow> onNodesChange_forEach nds changes st')"

definition onNodesChange :: "state \<Rightarrow> nodeChange list \<Rightarrow> error + state" where
  "onNodesChange st changes =
     (case onNodesChange_forEach (nodes st) changes st of
        Inl e \<Rightarrow> Inl e
      | Inr st' \<Rightarrow> Inr (st'\<lparr>nodes := applyNodeChanges changes (nodes st)\<rparr>))"

text \<open>
  A drag gesture as the toolkit delivers it: \<^verbatim>\<open>onNodeDragStart\<close>, then the batches of
  node changes of the intermediate frames, then \<^verbatim>\<open>onNodeDragStop\<close>.
\<close>

fun dragFrames :: "nodeChange list list \<Rightarrow> state \<Rightarrow> error + state" where
  "dragFrames [] st = Inr st"
| "dragFrames (changes # frames) st =
     (case onNodesChange st changes of
        Inl e \<Rightarrow> Inl e
      | Inr st' \<Rightarrow> dragFrames frames st')"

definition dragGesture :: "state \<Rightarrow> node \<Rightarrow> nodeChange list list \<Rightarrow> node \<Rightarrow> error + state" where
  "dragGesture st startNode frames endNode =
     (case dragFrames frames (onNodesChangeStart st startNode) of
        Inl e \<Rightarrow> Inl e
      | Inr st' \<Rightarrow> Inr (onNodesChangeEnd st' (Some endNode)))"

fun isPositionCommand :: "command \<Rightarrow> bool" where
  "isPositionCommand (UPDATE_NODE_POSITION i p q) = True"
| "isPositionCommand (ADD_NODE n) = False"
| "isPositionCommand (DELETE_NODE n) = False"
| "isPositionCommand (ADD_EDGE e) = False"
| "isPositionCommand (DELETE_EDGE e) = False"

definition positionCommands :: "state \<Rightarrow> command list" where
  "positionCommands st = filter isPositionCommand (history st)"

subsection \<open>Adding a node\<close>

text \<open>\<^verbatim>\<open>addNode\<close>; the two results of \<^verbatim>\<open>Math.random() * 400\<close> are the parameter
  \<open>pos\<close>.\<close>

definition addNode :: "position \<Rightarrow> state \<Rightarrow> string \<Rightarrow> string \<Rightarrow> state" where
  "addNode pos st blockId nodeType =
     (case find (\<lambda>b. bid b = blockId) (availableNodes st) of
        None \<Rightarrow> st
      | Some nodeSchema \<Rightarrow>
          (let newNode =
                 \<lparr>nid = toString (nodeId st),
                  position = pos,
                  data = \<lparr>blockType = nodeType,
                          title = nodeType @ '' '' @ toString (nodeId st),
                          inputSchema = b_inputSchema nodeSchema,
                          outputSchema = b_outputSchema nodeSchema,
                          hardcodedValues = [],
                          connections = [],
                          isOutputOpen = False,
                          status = None,
                          output_data = None,
                          block_id = blockId,
                          backend_id = None\<rparr>,
                  selected = False\<rparr>
           in st\<lparr>nodes := nodes st @ [newNode],
                 nodeId := nodeId st + 1,
                 history := history st @ [ADD_NODE newNode]\<rparr>))"

subsection \<open>Loading a graph\<close>

text \<open>
  \<^verbatim>\<open>loadGraph\<close>.  A node of a block the catalog does not list throws at
  \<^verbatim>\<open>block.id\<close>; the edge colours are looked up among the nodes of the closure.  The
  state updates queued before an exception stay in effect, so the result is the state
  together with the exception, if any.
\<close>

fun loadNodes :: "block list \<Rightarrow> graphNode list \<Rightarrow> error + node list" where
  "loadNodes catalog [] = Inr []"
| "loadNodes catalog (gn # rest) =
     (case find (\<lambda>b. bid b = gn_block_id gn) catalog of
        None \<Rightarrow> Inl TypeError
      | Some b \<Rightarrow>
          (case loadNodes catalog rest of
             Inl e \<Rightarrow> Inl e
           | Inr ns \<Rightarrow>
               Inr (\<lparr>nid = gn_id gn,
                     position = \<lparr>pos_x = pos_x (metadata_position gn),
                                  pos_y = pos_y (metadata_position gn)\<rparr>,
                     data = \<lparr>blockType = bname b,
                             title = bname b @ '' '' @ gn_id gn,
                             inputSchema = b_inputSchema b,
                             outputSchema = b_outputSchema b,
                             hardcodedValues = input_default gn,
                             connections = [],
                             isOutputOpen = False,
                             status = None,
                             output_data = None,
                             block_id = bid b,
                             backend_id = None\<rparr>,
                     selected = False\<rparr> # ns)))"

definition handleOrUndefined :: "string \<Rightarrow> string option" where
  "handleOrUndefined name = (if name = [] then None else Some name)"

fun loadEdges :: "(string option \<Rightarrow> string) \<Rightarrow> state \<Rightarrow> link list \<Rightarrow> error + edge list" where
  "loadEdges getTypeColor st [] = Inr []"
| "loadEdges getTypeColor st (l # rest) =
     (case getOutputType st (source_id l) (source_name l) of
        Inl e \<Rightarrow> Inl e
      | Inr outputType \<Rightarrow>
          (case loadEdges getTypeColor st rest of
             Inl e \<Rightarrow> Inl e
           | Inr es \<Rightarrow>
               Inr (\<lparr>source = source_id l,
                     sourceHandle = handleOrUndefined (source_name l),
                     target = sink_id l,
                     targetHandle = handleOrUndefined (sink_name l),
                     eid = source_id l @ ''_'' @ source_name l @ ''_'' @ sink_id l @ ''_'' @ sink_name l,
                     edge_selected = False,
                     edgeColor = getTypeColor outputType,
                     sourcePos = getNodePos st (source_id l)\<rparr> # es)))"

definition loadGraph :: "(string option \<Rightarrow> string) \<Rightarrow> state \<Rightarrow> graph \<Rightarrow> error option \<times> state" where
  "loadGraph getTypeColor st g =
     (let st1 = st\<lparr>savedAgent := Some g, agentName := gname g, agentDescription := gdescription g\<rparr>
      in case loadNodes (availableNodes st) (gnodes g) of
           Inl e \<Rightarrow> (Some e, st1)
         | Inr ns \<Rightarrow>
             (case loadEdges getTypeColor st (glinks g) of
                Inl e \<Rightarrow> (Some e, st1\<lparr>nodes := ns\<rparr>)
              | Inr es \<Rightarrow> (None, st1\<lparr>nodes := ns, edges := es\<rparr>)))"

subsection \<open>Copy and paste\<close>

record keyboardEvent =
  ctrlKey :: bool
  metaKey :: bool
  ev_key :: string

text \<open>The nodes and edges the paste branch of \<^verbatim>\<open>handleKeyDown\<close> builds; \<open>now\<close> is
  the result of \<^verbatim>\<open>Date.now()\<close>.\<close>

definition pasteNodes :: "state \<Rightarrow> node list" where
  "pasteNodes st =
     map (\<lambda>(index, node).
            node\<lparr>nid := toString (nodeId st + index),
                 position := \<lparr>pos_x = d_add (pos_x (position node)) (Fin 20),
                               pos_y = d_add (pos_y (position node)) (Fin 20)\<rparr>,
                 data := (data node)\<lparr>status := None, output_data := None\<rparr>\<rparr>)
         (enumerate 0 (copiedNodes st))"

definition rehome :: "node list \<Rightarrow> string \<Rightarrow> string" where
  "rehome newNodes endpoint =
     (case find (\<lambda>n. title (data n) = endpoint) newNodes of
        None \<Rightarrow> endpoint
      | Some n \<Rightarrow> if nid n = [] then endpoint else nid n)"

definition pasteEdges :: "nat \<Rightarrow> state \<Rightarrow> edge list" where
  "pasteEdges now st =
     map (\<lambda>e.
            (let newSourceId = rehome (pasteNodes st) (source e);
                 newTargetId = rehome (pasteNodes st) (target e)
             in e\<lparr>eid := newSourceId @ ''_'' @ handleString (sourceHandle e) @ ''_''
                          @ newTargetId @ ''_'' @ handleString (targetHandle e) @ ''_''
                          @ toString now,
                   source := newSourceId,
                   target := newTargetId\<rparr>))
         (copiedEdges st)"

definition handleKeyDown :: "nat \<Rightarrow> state \<Rightarrow> keyboardEvent \<Rightarrow> state" where
  "handleKeyDown now st event =
     (if ctrlKey event \<or> metaKey event then
        (let st1 = (if ev_key event = ''c'' \<or> ev_key event = ''C''
                    then st\<lparr>copiedNodes := filter selected (nodes st),
                            copiedEdges := filter edge_selected (edges st)\<rparr>
                    else st)
         in if (ev_key event = ''v'' \<or> ev_key event = ''V'') \<and> length (copiedNodes st) > 0
            then st1\<lparr>nodes := map (\<lambda>node. node\<lparr>selected := False\<rparr>) (nodes st) @ pasteNodes st,
                     nodeId := nodeId st + length (copiedNodes st),
                     edges := edges st @ pasteEdges now st\<rparr>
            else st1)
      else st)"

subsection \<open>Saving\<close>

text \<open>
  \<^verbatim>\<open>prepareNodeInputData\<close>: the lines written with \<^verbatim>\<open>console.error\<close>, and the
  payload or the exception of \<^verbatim>\<open>getNestedData\<close>.
\<close>

definition prepareNodeInputData :: "runtime \<Rightarrow> state \<Rightarrow> node \<Rightarrow> string list \<times> (error + obj)" where
  "prepareNodeInputData rt st node =
     (case (case find (\<lambda>n. bid n = block_id (data node)) (availableNodes st) of
              None \<Rightarrow> None
            | Some n \<Rightarrow> b_inputSchema n) of
        None \<Rightarrow> ([''Schema not found for block ID: '' @ block_id (data node)], Inr [])
      | Some blockSchema \<Rightarrow> ([], getNestedData rt blockSchema (JObj (hardcodedValues (data node)))))"

text \<open>
  The key \<^verbatim>\<open>`${block_id}_${x}_${y}`\<close>.  No number prints with an underscore and two
  numbers print alike only when they are equal, so the string determines the block
  identifier and the two coordinates; the model keeps the three components.  A key ends
  in a printed number and is therefore none of the names of \<^verbatim>\<open>Object.prototype\<close>: a
  read of \<^verbatim>\<open>blockIdToNodeIdMap\<close> finds what was stored under the key or nothing.
\<close>

type_synonym compositeKey = "string \<times> double \<times> double"

definition nodeKey :: "node \<Rightarrow> compositeKey" where
  "nodeKey node = (block_id (data node), pos_x (position node), pos_y (position node))"

definition backendKey :: "graphNode \<Rightarrow> compositeKey" where
  "backendKey backendNode =
     (gn_block_id backendNode, pos_x (metadata_position backendNode),
      pos_y (metadata_position backendNode))"

text \<open>\<^verbatim>\<open>blockIdToNodeIdMap\<close>: the inner \<^verbatim>\<open>forEach\<close> runs once for every node the
  outer \<^verbatim>\<open>map\<close> visits.\<close>

definition recordKeys :: "node list \<Rightarrow> (compositeKey \<rightharpoonup> string) \<Rightarrow> (compositeKey \<rightharpoonup> string)" where
  "recordKeys nds m = fold (\<lambda>node m'. m'(nodeKey node \<mapsto> nid node)) nds m"

definition blockIdToNodeIdMap :: "state \<Rightarrow> (compositeKey \<rightharpoonup> string)" where
  "blockIdToNodeIdMap st = fold (\<lambda>node m. recordKeys (nodes st) m) (nodes st) Map.empty"

text \<open>How \<^verbatim>\<open>edge.targetHandle || ''\<close> reads a handle.\<close>

definition handleOrEmpty :: "string option \<Rightarrow> string" where
  "handleOrEmpty h = (case h of None \<Rightarrow> [] | Some s \<Rightarrow> s)"

definition formatNode :: "runtime \<Rightarrow> state \<Rightarrow> node \<Rightarrow> error + graphNode" where
  "formatNode rt st node =
     (case snd (prepareNodeInputData rt st node) of
        Inl e \<Rightarrow> Inl e
      | Inr inputDefault \<Rightarrow>
          Inr \<lparr>gn_id = nid node,
               gn_block_id = block_id (data node),
               input_default = inputDefault,
               input_nodes =
                 map (\<lambda>e. \<lparr>stub_name = handleOrEmpty (targetHandle e), stub_node_id = source e\<rparr>)
                     (filter (\<lambda>e. target e = nid node) (edges st)),
               output_nodes =
                 map (\<lambda>e. \<lparr>stub_name = handleOrEmpty (sourceHandle e), stub_node_id = target e\<rparr>)
                     (filter (\<lambda>e. source e = nid node) (edges st)),
               metadata_position = position node\<rparr>)"

fun formattedNodes :: "runtime \<Rightarrow> state \<Rightarrow> node list \<Rightarrow> error + graphNode list" where
  "formattedNodes rt st [] = Inr []"
| "formattedNodes rt st (node # rest) =
     (case formatNode rt st node of
        Inl e \<Rightarrow> Inl e
      | Inr n \<Rightarrow> (case formattedNodes rt st rest of
                    Inl e \<Rightarrow> Inl e
                  | Inr ns \<Rightarrow> Inr (n # ns)))"

definition payloadOf :: "state \<Rightarrow> graphNode list \<Rightarrow> graphPayload" where
  "payloadOf st fnodes =
     \<lparr>p_id = map_option gid (savedAgent st),
      p_name = (if agentName st = [] then ''Agent Name'' else agentName st),
      p_description = (if agentDescription st = [] then ''Agent Description''
                       else agentDescription st),
      p_nodes = fnodes,
      p_links = map (\<lambda>e. \<lparr>source_id = source e, sink_id = target e,
                          source_name = handleOrEmpty (sourceHandle e),
                          sink_name = handleOrEmpty (targetHandle e)\<rparr>) (edges st)\<rparr>"

text \<open>
  Modelled from the spec: \<^verbatim>\<open>deepEquals\<close> of \<^verbatim>\<open>lib/utils\<close> is not among the sources.
  It "compares the freshly assembled record against the last-synced copy by deep
  structural equality", taken here over the fields of the assembled record.
\<close>

definition deepEquals :: "graphPayload \<Rightarrow> graph \<Rightarrow> bool" where
  "deepEquals p g \<longleftrightarrow>
     p_id p = Some (gid g) \<and> p_name p = gname g \<and> p_description p = gdescription g
     \<and> p_nodes p = gnodes g \<and> p_links p = glinks g"

text \<open>The new node list \<^verbatim>\<open>saveAgent\<close> builds from the nodes of the response.\<close>

definition updatedNodes :: "state \<Rightarrow> graph \<Rightarrow> node list" where
  "updatedNodes st newSavedAgent =
     List.map_filter
       (\<lambda>backendNode.
          case blockIdToNodeIdMap st (backendKey backendNode) of
            None \<Rightarrow> None
          | Some frontendNodeId \<Rightarrow>
              (case find (\<lambda>node. nid node = frontendNodeId) (nodes st) of
                 None \<Rightarrow> None
               | Some frontendNode \<Rightarrow>
                   Some (frontendNode\<lparr>position := metadata_position backendNode,
                                      data := (data frontendNode)\<lparr>backend_id := Some (gn_id backendNode)\<rparr>\<rparr>)))
       (gnodes newSavedAgent)"

text \<open>
  What a call of \<^verbatim>\<open>saveAgent\<close> leaves behind: the state, the remote calls it issued
  and what its promise settles to (\<open>Inl\<close> a rejection, \<open>Inr None\<close> the value
  \<^verbatim>\<open>undefined\<close>, \<open>Inr (Some i)\<close> the identifier \<open>i\<close>).
\<close>

record saveOutcome =
  after :: state
  remoteCalls :: "apiCall list"
  returned :: "error + string option"

text \<open>
  \<^verbatim>\<open>saveAgent\<close>.  The remote service is the parameter \<open>api\<close>.  The first
  \<^verbatim>\<open>setNodes\<close> clears the status in the state; everything after it reads the nodes of
  the closure, and the last \<^verbatim>\<open>setNodes\<close> replaces the node list.
\<close>

definition saveAgent :: "runtime \<Rightarrow> (apiCall \<Rightarrow> error + graph) \<Rightarrow> state \<Rightarrow> bool \<Rightarrow> saveOutcome" where
  "saveAgent rt api st asTemplate =
     (let st0 = st\<lparr>nodes := map (\<lambda>node. node\<lparr>data := (data node)\<lparr>status := None\<rparr>\<rparr>) (nodes st)\<rparr>
      in case formattedNodes rt st (nodes st) of
           Inl e \<Rightarrow> \<lparr>after = st0, remoteCalls = [], returned = Inl e\<rparr>
         | Inr fnodes \<Rightarrow>
             (let payload = payloadOf st fnodes
              in if (case savedAgent st of None \<Rightarrow> False | Some g \<Rightarrow> deepEquals payload g)
                 then \<lparr>after = st0, remoteCalls = [], returned = Inr None\<rparr>
                 else
                   (let call = (case savedAgent st of
                                  Some g \<Rightarrow> if is_template g then updateTemplate (gid g) payload
                                            else updateGraph (gid g) payload
                                | None \<Rightarrow> if asTemplate then createTemplate payload
                                          else createGraph payload)
                    in case api call of
                         Inl e \<Rightarrow> \<lparr>after = st0, remoteCalls = [call], returned = Inl e\<rparr>
                       | Inr newSavedAgent \<Rightarrow>
                           \<lparr>after = st0\<lparr>savedAgent := Some newSavedAgent,
                                         nodes := updatedNodes st newSavedAgent\<rparr>,
                            remoteCalls = [call],
                            returned = Inr (Some (gid newSavedAgent))\<rparr>)))"

text \<open>\<^verbatim>\<open>runAgent\<close>: whether the run is started after the save, and the line it logs when
  the save returned no identifier.\<close>

definition runAgent ::
  "runtime \<Rightarrow> (apiCall \<Rightarrow> error + graph) \<Rightarrow> state \<Rightarrow> saveOutcome \<times> string option \<times> string list" where
  "runAgent rt api st =
     (let out = saveAgent rt api st False
      in case returned out of
           Inl e \<Rightarrow> (out, None, [''Error running agent:''])
         | Inr None \<Rightarrow> (out, None, [''Error saving agent; aborting run''])
         | Inr (Some newAgentId) \<Rightarrow>
             if newAgentId = [] then (out, None, [''Error saving agent; aborting run''])
             else (out, Some newAgentId, []))"

text \<open>The local counter is ahead of the nodes: no node carries the printed form of the
  counter or of a later number as its identifier.\<close>

definition counterAhead :: "state \<Rightarrow> bool" where
  "counterAhead st \<longleftrightarrow> (\<forall>node\<in>set (nodes st). \<forall>k\<ge>nodeId st. nid node \<noteq> toString k)"
section \<open>Sample graphs\<close>

text \<open>A catalog with one block, nodes of that block as \<^verbatim>\<open>addNode\<close> and
  \<^verbatim>\<open>loadGraph\<close> build them, and editor states over them.\<close>

definition printInput :: schema where
  "printInput = Schema (Some ''object'') (Some [(''text'', Schema (Some ''string'') None False)]) False"

definition printOutput :: schema where
  "printOutput = Schema (Some ''object'') (Some [(''status'', Schema (Some ''string'') None False)]) False"

definition printBlock :: block where
  "printBlock = \<lparr>bid = ''print'', bname = ''Print'',
                  b_inputSchema = Some printInput, b_outputSchema = Some printOutput\<rparr>"

definition printNode :: "string \<Rightarrow> real \<Rightarrow> real \<Rightarrow> bool \<Rightarrow> node" where
  "printNode i px py sel =
     \<lparr>nid = i,
      position = \<lparr>pos_x = Fin px, pos_y = Fin py\<rparr>,
      data = \<lparr>blockType = ''Print'', title = ''Print '' @ i,
              inputSchema = Some printInput, outputSchema = Some printOutput,
              hardcodedValues = [], connections = [], isOutputOpen = False,
              status = None, output_data = None, block_id = ''print'', backend_id = None\<rparr>,
      selected = sel\<rparr>"

definition editor :: "node list \<Rightarrow> edge list \<Rightarrow> nat \<Rightarrow> graph option \<Rightarrow> state" where
  "editor nds eds counter saved =
     \<lparr>nodes = nds, edges = eds, nodeId = counter, availableNodes = [printBlock],
      savedAgent = saved, agentDescription = [], agentName = [],
      copiedNodes = [], copiedEdges = [], initialPositionRef = \<lparr>ownPositions = Map.empty, protoPosition = None\<rparr>,
      isDragging = False, history = []\<rparr>"

definition wire :: connection where
  "wire = \<lparr>source = ''1'', sourceHandle = Some ''status'', target = ''2'', targetHandle = Some ''text''\<rparr>"

definition wireEdge :: "bool \<Rightarrow> edge" where
  "wireEdge sel =
     \<lparr>source = ''1'', sourceHandle = Some ''status'', target = ''2'', targetHandle = Some ''text'',
      eid = ''1_status_2_text'', edge_selected = sel, edgeColor = ''gray'',
      sourcePos = Some \<lparr>pos_x = Fin 0, pos_y = Fin 0\<rparr>\<rparr>"

text \<open>A graph as the service returns it for one untouched print node, and the editor
  state right after loading it.\<close>

definition storedGraph :: graph where
  "storedGraph =
     \<lparr>gid = ''g-1'', gname = ''Agent Name'', gdescription = ''Agent Description'',
      is_template = False,
      gnodes = [\<lparr>gn_id = ''n-1'', gn_block_id = ''print'', input_default = [],
                 input_nodes = [], output_nodes = [],
                 metadata_position = \<lparr>pos_x = Fin 10, pos_y = Fin 20\<rparr>\<rparr>],
      glinks = []\<rparr>"

definition loadedEditor :: state where
  "loadedEditor = snd (loadGraph (\<lambda>t. ''gray'') (editor [] [] 1 None) storedGraph)"

text \<open>A stored graph whose node carries the identifier \<^verbatim>\<open>1\<close>.\<close>

definition numberedGraph :: graph where
  "numberedGraph =
     \<lparr>gid = ''g-2'', gname = ''Numbered'', gdescription = ''One node'',
      is_template = False,
      gnodes = [\<lparr>gn_id = ''1'', gn_block_id = ''print'', input_default = [],
                 input_nodes = [], output_nodes = [],
                 metadata_position = \<lparr>pos_x = Fin 10, pos_y = Fin 20\<rparr>\<rparr>],
      glinks = []\<rparr>"

text \<open>A stored graph whose node carries the identifier \<^verbatim>\<open>1\<close> and the input
  \<^verbatim>\<open>{text: "hello"}\<close>.\<close>

definition labelledGraph :: graph where
  "labelledGraph =
     \<lparr>gid = ''g-3'', gname = ''Labelled'', gdescription = ''One node'',
      is_template = False,
      gnodes = [\<lparr>gn_id = ''1'', gn_block_id = ''print'', input_default = [(''text'', JStr ''hello'')],
                 input_nodes = [], output_nodes = [],
                 metadata_position = \<lparr>pos_x = Fin 10, pos_y = Fin 20\<rparr>\<rparr>],
      glinks = []\<rparr>"

definition ctrl :: "string \<Rightarrow> keyboardEvent" where
  "ctrl k = \<lparr>ctrlKey = True, metaKey = False, ev_key = k\<rparr>"

text \<open>
  Two remote services: one that stores what it is sent and assigns each node a new
  identifier, and one that keeps the first node only.  An editor with two print nodes,
  and the editor after one print node has been copied and pasted twice.
\<close>

definition stored :: "graphPayload \<Rightarrow> graph" where
  "stored p =
     \<lparr>gid = ''g-1'', gname = p_name p, gdescription = p_description p, is_template = False,
      gnodes = map (\<lambda>gn. gn\<lparr>gn_id := ''n-'' @ gn_id gn\<rparr>) (p_nodes p),
      glinks = p_links p\<rparr>"

fun sampleService :: "apiCall \<Rightarrow> error + graph" where
  "sampleService (createGraph p) = Inr (stored p)"
| "sampleService (createTemplate p) = Inr ((stored p)\<lparr>is_template := True\<rparr>)"
| "sampleService (updateGraph i p) = Inr (stored p)"
| "sampleService (updateTemplate i p) = Inr ((stored p)\<lparr>is_template := True\<rparr>)"

fun forgetfulService :: "apiCall \<Rightarrow> error + graph" where
  "forgetfulService (createGraph p) = Inr ((stored p)\<lparr>gnodes := take 1 (gnodes (stored p))\<rparr>)"
| "forgetfulService (createTemplate p) = Inl RemoteFailure"
| "forgetfulService (updateGraph i p) = Inl RemoteFailure"
| "forgetfulService (updateTemplate i p) = Inl RemoteFailure"

definition twoNodes :: state where
  "twoNodes = editor [printNode ''1'' 0 0 False, printNode ''2'' 300 0 False] [] 3 None"

definition twicePasted :: state where
  "twicePasted =
     handleKeyDown 0
       (handleKeyDown 0
          (handleKeyDown 0 (editor [printNode ''1'' 0 0 True] [] 2 None) (ctrl ''c''))
          (ctrl ''v''))
       (ctrl ''v'')"

text \<open>The editor after loading the labelled graph and adding a print node.\<close>

definition loadedThenAdded :: state where
  "loadedThenAdded =
     addNode \<lparr>pos_x = Fin 300, pos_y = Fin 0\<rparr>
       (snd (loadGraph (\<lambda>t. ''gray'') (editor [] [] 1 None) labelledGraph)) ''print'' ''Print''"

text \<open>The schemas of the composition examples.\<close>

definition nestedSchema :: schema where
  "nestedSchema = Schema (Some ''object'') (Some [(''c'', Schema (Some ''number'') None False)]) False"

definition exampleSchema :: schema where
  "exampleSchema =
     Schema (Some ''object'')
       (Some [(''a'', Schema (Some ''string'') None False), (''b'', nestedSchema)]) False"

definition openSchema :: schema where
  "openSchema = Schema (Some ''object'') (Some [(''a'', Schema (Some ''string'') None False)]) True"

definition openNestedSchema :: schema where
  "openNestedSchema = Schema (Some ''object'') (Some [(''b'', nestedSchema)]) True"

text \<open>A schema that declares a property named like a member of \<^verbatim>\<open>Object.prototype\<close>.\<close>

definition namedSchema :: schema where
  "namedSchema =
     Schema (Some ''object'') (Some [(''constructor'', Schema (Some ''string'') None False)]) False"

definition retiredNode :: node where
  "retiredNode = (printNode ''1'' 0 0 False)\<lparr>data := (data (printNode ''1'' 0 0 False))\<lparr>block_id := ''retired''\<rparr>\<rparr>"

lemmas sample_defs =
  printInput_def printOutput_def printBlock_def printNode_def editor_def wire_def
  wireEdge_def storedGraph_def loadedEditor_def retiredNode_def ctrl_def numberedGraph_def
  labelledGraph_def

lemmas schema_defs = nestedSchema_def exampleSchema_def openSchema_def openNestedSchema_def
  namedSchema_def

lemmas save_defs = saveAgent_def Let_def formatNode_def prepareNodeInputData_def
  getNestedData.simps member_def objectPrototypeNames_def assign_def payloadOf_def
  deepEquals_def updatedNodes_def blockIdToNodeIdMap_def recordKeys_def backendKey_def
  nodeKey_def stored_def
section \<open>Rounding\<close>

lemma roundEven_bound: "\<bar>real_of_int (roundEven y) - y\<bar> \<le> 1 / 2"
proof -
  have "real_of_int \<lfloor>y\<rfloor> \<le> y" "y < real_of_int \<lfloor>y\<rfloor> + 1"
    by linarith+
  then show ?thesis
    by (auto simp: roundEven_def Let_def)
qed

lemma roundEven_mono:
  assumes "y1 \<le> y2"
  shows "roundEven y1 \<le> roundEven y2"
proof (rule ccontr)
  assume "\<not> roundEven y1 \<le> roundEven y2"
  then have g: "real_of_int (roundEven y2) + 1 \<le> real_of_int (roundEven y1)"
    by linarith
  from roundEven_bound [of y1] roundEven_bound [of y2] assms g
  have "y1 = y2" by linarith
  with g show False by simp
qed

lemma roundEven_of_int [simp]: "roundEven (real_of_int m) = m"
  by (simp add: roundEven_def)

lemma roundEven_le: "y \<le> real_of_int m \<Longrightarrow> roundEven y \<le> m"
  using roundEven_mono [of y "real_of_int m"] by simp

lemma roundEven_ge: "real_of_int m \<le> y \<Longrightarrow> m \<le> roundEven y"
  using roundEven_mono [of "real_of_int m" y] by simp

lemma roundEven_near:
  assumes "\<bar>y - real_of_int k\<bar> < 1 / 2"
  shows "roundEven y = k"
proof -
  from roundEven_bound [of y] assms
  have "\<bar>real_of_int (roundEven y) - real_of_int k\<bar> < 1" by linarith
  then have "\<bar>real_of_int (roundEven y - k)\<bar> < 1" by simp
  then have "\<bar>roundEven y - k\<bar> < 1" by linarith
  then show ?thesis by linarith
qed

lemma ulp_pos: "0 < ulp x"
  by (simp add: ulp_def)

lemma expo_ge: "- 1022 \<le> expo x"
  by (simp add: expo_def)

lemma expo_eqI:
  assumes "2 powr real_of_int e \<le> \<bar>x\<bar>" and "\<bar>x\<bar> < 2 powr (real_of_int e + 1)"
    and "- 1022 \<le> e"
  shows "expo x = e"
proof -
  have p: "0 < \<bar>x\<bar>"
    using assms(1) by (smt (verit) powr_gt_zero)
  have "real_of_int e \<le> log 2 \<bar>x\<bar>"
    using assms(1) p by (simp add: le_log_iff)
  moreover have "log 2 \<bar>x\<bar> < real_of_int e + 1"
    using assms(2) p by (simp add: log_less_iff)
  ultimately have "\<lfloor>log 2 \<bar>x\<bar>\<rfloor> = e"
    by linarith
  with assms(3) show ?thesis by (simp add: expo_def)
qed

lemma expo_small:
  assumes "\<bar>x\<bar> < 2 powr (- 1022)" and "x \<noteq> 0"
  shows "expo x = - 1022"
proof -
  have p: "0 < \<bar>x\<bar>" using assms(2) by simp
  have "log 2 \<bar>x\<bar> < - 1022"
    using assms(1) p by (simp add: log_less_iff)
  then have "\<lfloor>log 2 \<bar>x\<bar>\<rfloor> \<le> - 1022" by linarith
  then show ?thesis by (simp add: expo_def)
qed

lemma expo_normal:
  assumes "2 powr (- 1022) \<le> \<bar>x\<bar>"
  shows "2 powr real_of_int (expo x) \<le> \<bar>x\<bar>" and "\<bar>x\<bar> < 2 powr (real_of_int (expo x) + 1)"
proof -
  have p: "0 < \<bar>x\<bar>"
    using assms by (smt (verit) powr_gt_zero)
  have "- 1022 \<le> log 2 \<bar>x\<bar>"
    using assms p by (simp add: le_log_iff)
  then have "- 1022 \<le> \<lfloor>log 2 \<bar>x\<bar>\<rfloor>" by linarith
  then have e: "expo x = \<lfloor>log 2 \<bar>x\<bar>\<rfloor>" by (simp add: expo_def)
  have "real_of_int \<lfloor>log 2 \<bar>x\<bar>\<rfloor> \<le> log 2 \<bar>x\<bar>" by linarith
  then show "2 powr real_of_int (expo x) \<le> \<bar>x\<bar>"
    using p by (simp add: e powr_le_iff)
  have "log 2 \<bar>x\<bar> < real_of_int \<lfloor>log 2 \<bar>x\<bar>\<rfloor> + 1" by linarith
  then show "\<bar>x\<bar> < 2 powr (real_of_int (expo x) + 1)"
    using p by (simp add: e less_powr_iff)
qed

lemma rnd_zero [simp]: "rnd 0 = 0"
  using roundEven_of_int [of 0] by (simp add: rnd_def)

lemma rnd_diff: "\<bar>rnd x - x\<bar> \<le> ulp x / 2"
proof -
  have "rnd x - x = ulp x * (real_of_int (roundEven (x / ulp x)) - x / ulp x)"
    using ulp_pos [of x] by (simp add: rnd_def field_simps)
  then have "\<bar>rnd x - x\<bar> = ulp x * \<bar>real_of_int (roundEven (x / ulp x)) - x / ulp x\<bar>"
    using ulp_pos [of x] by (simp add: abs_mult)
  also have "\<dots> \<le> ulp x * (1 / 2)"
    using roundEven_bound [of "x / ulp x"] ulp_pos [of x] by (intro mult_left_mono) simp_all
  finally show ?thesis by simp
qed

lemma half_ulp_bound: "x \<noteq> 0 \<Longrightarrow> ulp x / 2 \<le> \<bar>x\<bar> / 2 ^ 53 + 1 / 2 ^ 1075"
proof (cases "2 powr (- 1022) \<le> \<bar>x\<bar>")
  case True
  have "ulp x / 2 = 2 powr real_of_int (expo x) / 2 ^ 53"
    by (simp add: ulp_def powr_diff)
  also have "\<dots> \<le> \<bar>x\<bar> / 2 ^ 53"
    using expo_normal(1) [OF True] by (simp add: divide_right_mono)
  finally show ?thesis by simp
next
  case False
  assume "x \<noteq> 0"
  with False have "expo x = - 1022" by (intro expo_small) simp_all
  then have "ulp x / 2 = 1 / 2 ^ 1075"
    by (simp add: ulp_def powr_minus_divide)
  then show ?thesis by simp
qed

lemma rnd_error: "\<bar>rnd x - x\<bar> \<le> \<bar>x\<bar> / 2 ^ 53 + 1 / 2 ^ 1075"
proof (cases "x = 0")
  case True
  then show ?thesis by simp
next
  case False
  from rnd_diff [of x] half_ulp_bound [OF False] show ?thesis by linarith
qed

lemma rnd_nonneg: "0 \<le> x \<Longrightarrow> 0 \<le> rnd x"
proof -
  assume "0 \<le> x"
  then have "real_of_int 0 \<le> x / ulp x"
    using ulp_pos [of x] by simp
  from roundEven_ge [OF this] ulp_pos [of x] show ?thesis
    by (simp add: rnd_def)
qed

lemma rnd_le_next_power:
  assumes "0 < x"
  shows "rnd x \<le> 2 powr (real_of_int (expo x) + 1)"
proof -
  have lt: "x \<le> 2 powr (real_of_int (expo x) + 1)"
  proof (cases "2 powr (- 1022) \<le> \<bar>x\<bar>")
    case True
    from expo_normal(2) [OF True] assms show ?thesis by simp
  next
    case False
    then have "x < 2 powr (- 1022)" using assms by simp
    also have "\<dots> \<le> 2 powr (real_of_int (expo x) + 1)"
      using expo_ge [of x] by (intro powr_mono) simp_all
    finally show ?thesis by simp
  qed
  have "2 powr (real_of_int (expo x) + 1) / ulp x = 2 powr 53"
    by (simp add: ulp_def flip: powr_diff)
  then have e: "2 powr (real_of_int (expo x) + 1) / ulp x = real_of_int (2 ^ 53)"
    by simp
  have "x / ulp x \<le> real_of_int (2 ^ 53)"
    using lt ulp_pos [of x] unfolding e [symmetric] by (simp add: divide_right_mono)
  from roundEven_le [OF this] have "real_of_int (roundEven (x / ulp x)) \<le> 2 ^ 53"
    by (metis of_int_le_iff of_int_numeral of_int_power)
  then have "rnd x \<le> ulp x * 2 ^ 53"
    using ulp_pos [of x] by (simp add: rnd_def)
  also have "\<dots> = 2 powr (real_of_int (expo x) + 1)"
    using e ulp_pos [of x] by (simp add: field_simps)
  finally show ?thesis .
qed

lemma rnd_ge_power:
  assumes "2 powr real_of_int (expo x) \<le> x"
  shows "2 powr real_of_int (expo x) \<le> rnd x"
proof -
  have "2 powr real_of_int (expo x) / ulp x = 2 powr 52"
    by (simp add: ulp_def flip: powr_diff)
  then have e: "2 powr real_of_int (expo x) / ulp x = real_of_int (2 ^ 52)"
    by simp
  have "real_of_int (2 ^ 52) \<le> x / ulp x"
    using assms ulp_pos [of x] unfolding e [symmetric] by (simp add: divide_right_mono)
  from roundEven_ge [OF this] have "2 ^ 52 \<le> real_of_int (roundEven (x / ulp x))"
    by (metis of_int_le_iff of_int_numeral of_int_power)
  then have "ulp x * 2 ^ 52 \<le> rnd x"
    using ulp_pos [of x] by (simp add: rnd_def)
  moreover have "ulp x * 2 ^ 52 = 2 powr real_of_int (expo x)"
    using e ulp_pos [of x] by (simp add: field_simps)
  ultimately show ?thesis by simp
qed

lemma expo_mono:
  assumes "0 < x" and "x \<le> y"
  shows "expo x \<le> expo y"
proof -
  have "log 2 \<bar>x\<bar> \<le> log 2 \<bar>y\<bar>"
    using assms by simp
  then have "\<lfloor>log 2 \<bar>x\<bar>\<rfloor> \<le> \<lfloor>log 2 \<bar>y\<bar>\<rfloor>"
    by (rule floor_mono)
  then show ?thesis by (simp add: expo_def)
qed

lemma rnd_mono:
  assumes "0 \<le> x" and "x \<le> y"
  shows "rnd x \<le> rnd y"
proof (cases "x = 0")
  case True
  with assms rnd_nonneg [of y] show ?thesis by simp
next
  case False
  with assms have x: "0 < x" and y: "0 < y" by simp_all
  from expo_mono [OF x assms(2)] consider "expo x = expo y" | "expo x < expo y"
    by linarith
  then show ?thesis
  proof cases
    case 1
    then have u: "ulp x = ulp y" by (simp add: ulp_def)
    have "x / ulp y \<le> y / ulp y"
      using assms(2) ulp_pos [of y] by (simp add: divide_right_mono)
    from roundEven_mono [OF this] show ?thesis
      using ulp_pos [of y] by (simp add: rnd_def u)
  next
    case 2
    then have "- 1022 < expo y" using expo_ge [of x] by linarith
    then have "expo y = \<lfloor>log 2 \<bar>y\<bar>\<rfloor>" by (simp add: expo_def)
    then have "real_of_int (expo y) \<le> log 2 y" using y by simp
    then have py: "2 powr real_of_int (expo y) \<le> y"
      using y by (simp add: powr_le_iff)
    have "rnd x \<le> 2 powr (real_of_int (expo x) + 1)"
      by (rule rnd_le_next_power [OF x])
    also have "\<dots> \<le> 2 powr real_of_int (expo y)"
      using 2 by (intro powr_mono) simp_all
    also have "\<dots> \<le> rnd y"
      by (rule rnd_ge_power [OF py])
    finally show ?thesis .
  qed
qed

text \<open>Evaluation at a given binade.\<close>

lemma rnd_near:
  assumes "2 powr real_of_int e \<le> x" and "x < 2 powr (real_of_int e + 1)" and "- 1022 \<le> e"
    and "\<bar>x - 2 powr (real_of_int e - 52) * real_of_int k\<bar> < 2 powr (real_of_int e - 52) / 2"
  shows "rnd x = 2 powr (real_of_int e - 52) * real_of_int k"
proof -
  have "0 < x" using assms(1) by (smt (verit) powr_gt_zero)
  with assms(1,2) have "expo x = e" by (intro expo_eqI assms(3)) simp_all
  then have u: "ulp x = 2 powr (real_of_int e - 52)" by (simp add: ulp_def)
  have "\<bar>x / ulp x - real_of_int k\<bar> = \<bar>x - ulp x * real_of_int k\<bar> / ulp x"
    using ulp_pos [of x] by (simp add: field_simps abs_divide flip: abs_mult_pos)
  also have "\<dots> < 1 / 2"
    using assms(4) ulp_pos [of x] unfolding u [symmetric] by (simp add: field_simps)
  finally have "roundEven (x / ulp x) = k" by (rule roundEven_near)
  then show ?thesis by (simp add: rnd_def u)
qed

lemma toNum_Fin: "\<bar>rnd x\<bar> < 2 ^ 1024 \<Longrightarrow> toNum x = Fin (rnd x)"
  by (auto simp: toNum_def)

text \<open>The distance computation with an unbounded exponent range: what the rounded
  operations return as long as nothing overflows.\<close>

definition chain :: "real \<Rightarrow> real \<Rightarrow> real" where
  "chain dx dy = rnd (sqrt (rnd (rnd (rnd dx * rnd dx) + rnd (rnd dy * rnd dy))))"

lemma rnd_exact:
  assumes "2 powr real_of_int e \<le> x" and "x < 2 powr (real_of_int e + 1)" and "- 1022 \<le> e"
    and "x = 2 powr (real_of_int e - 52) * real_of_int k"
  shows "rnd x = x"
  using rnd_near [OF assms(1-3), of k] assms(4) by simp

lemma rnd_50 [simp]: "rnd 50 = 50"
  by (rule rnd_exact [of 5 _ "50 * 2 ^ 47"]) (simp_all add: powr_minus)

lemma rnd_51 [simp]: "rnd 51 = 51"
  by (rule rnd_exact [of 5 _ "51 * 2 ^ 47"]) (simp_all add: powr_minus)

lemma rnd_2500 [simp]: "rnd 2500 = 2500"
  by (rule rnd_exact [of 11 _ "2500 * 2 ^ 41"]) (simp_all add: powr_minus)

lemma rnd_2601 [simp]: "rnd 2601 = 2601"
  by (rule rnd_exact [of 11 _ "2601 * 2 ^ 41"]) (simp_all add: powr_minus)

lemma rnd_above_50: "rnd (50 + 1 / 2 ^ 47) = 50 + 1 / 2 ^ 47"
  by (rule rnd_exact [of 5 _ "50 * 2 ^ 47 + 1"]) (simp_all add: powr_minus field_simps)

lemma rnd_above_2500: "rnd (2500 + 1 / 2 ^ 40) = 2500 + 1 / 2 ^ 40"
  by (rule rnd_exact [of 11 _ "2500 * 2 ^ 41 + 2"]) (simp_all add: powr_minus field_simps)

lemma toNum_exact: "rnd x = x \<Longrightarrow> \<bar>x\<bar> < 2 ^ 1024 \<Longrightarrow> toNum x = Fin x"
  by (simp add: toNum_Fin)

lemma rnd_20 [simp]: "rnd 20 = 20"
  by (rule rnd_exact [of 4 _ "20 * 2 ^ 48"]) (simp_all add: powr_minus)

lemma rnd_small_y: "rnd (1 / 2 ^ 24) = 1 / 2 ^ 24"
  by (rule rnd_exact [of "- 24" _ "2 ^ 52"]) (simp_all add: powr_minus field_simps)

lemma rnd_small_square: "rnd (1 / 2 ^ 48) = 1 / 2 ^ 48"
  by (rule rnd_exact [of "- 48" _ "2 ^ 52"]) (simp_all add: powr_minus field_simps)

lemma rnd_just_above_2500: "rnd (2500 + 1 / 2 ^ 48) = 2500"
  using rnd_near [of 11 "2500 + 1 / 2 ^ 48" "2500 * 2 ^ 41"] by (simp add: powr_minus)


lemma toNum_0 [simp]: "toNum 0 = Fin 0"
  by (simp add: toNum_def)

lemma toNum_20 [simp]: "toNum 20 = Fin 20"
  by (simp add: toNum_def)

lemma toNum_50 [simp]: "toNum 50 = Fin 50"
  by (simp add: toNum_def)

lemma toNum_2500 [simp]: "toNum 2500 = Fin 2500"
  by (simp add: toNum_def)

lemma toNum_small_y: "toNum (1 / 2 ^ 24) = Fin (1 / 2 ^ 24)"
  by (rule toNum_exact, rule rnd_small_y, simp)

lemma toNum_small_square: "toNum (1 / 2 ^ 48) = Fin (1 / 2 ^ 48)"
  by (rule toNum_exact, rule rnd_small_square, simp)

lemma toNum_just_above_2500: "toNum (2500 + 1 / 2 ^ 48) = Fin 2500"
  unfolding toNum_def rnd_just_above_2500 by simp


lemma toNum_cases:
  obtains (fin) "toNum t = Fin (rnd t)" and "\<bar>rnd t\<bar> < 2 ^ 1024"
  | (pinf) "toNum t = PInf" and "2 ^ 1024 \<le> rnd t"
  | (ninf) "toNum t = NInf" and "rnd t \<le> - (2 ^ 1024)"
  by (cases "2 ^ 1024 \<le> rnd t"; cases "rnd t \<le> - (2 ^ 1024)") (auto simp: toNum_def)

lemma toNum_nonneg_cases:
  assumes "0 \<le> t"
  obtains (fin) "toNum t = Fin (rnd t)" and "rnd t < 2 ^ 1024"
  | (pinf) "toNum t = PInf" and "2 ^ 1024 \<le> rnd t"
  using rnd_nonneg [OF assms] by (cases t rule: toNum_cases) auto

lemma big_sum: 
  assumes "2601 \<le> s"
  shows "50 < rnd (sqrt (rnd s))"
proof -
  from rnd_mono [of 2601 s] assms have "2601 \<le> rnd s" by simp
  then have "sqrt 2601 \<le> sqrt (rnd s)" by (rule real_sqrt_le_mono)
  moreover have "sqrt 2601 = 51" by (rule real_sqrt_unique) simp_all
  ultimately have "51 \<le> sqrt (rnd s)" by (simp only:)
  from rnd_mono [of 51 "sqrt (rnd s)"] this show ?thesis by simp
qed

text \<open>A double follows a real computation: it is its value, or the computation has
  overflowed and the real value is large.\<close>

definition tracks :: "double \<Rightarrow> real \<Rightarrow> bool" where
  "tracks v r = (v = Fin r \<or> (v = PInf \<and> 2601 \<le> r))"

lemma tracks_pow2: "tracks (d_pow2 (toNum t)) (rnd (rnd t * rnd t))"
proof (cases t rule: toNum_cases)
  case fin
  have "0 \<le> rnd t * rnd t" by simp
  then show ?thesis
  proof (cases "rnd t * rnd t" rule: toNum_nonneg_cases)
    case fin
    then show ?thesis using \<open>toNum t = Fin (rnd t)\<close> by (simp add: tracks_def)
  next
    case pinf
    moreover have "(2601::real) \<le> 2 ^ 1024" by simp
    ultimately have "2601 \<le> rnd (rnd t * rnd t)" by linarith
    then show ?thesis using pinf(1) \<open>toNum t = Fin (rnd t)\<close> by (simp add: tracks_def)
  qed
next
  case pinf
  have "(2601::real) \<le> 2 ^ 1024" by simp
  with pinf have "2601 \<le> rnd t" "1 \<le> rnd t" by linarith+
  then have "2601 * 1 \<le> rnd t * rnd t" by (intro mult_mono) simp_all
  then have "rnd 2601 \<le> rnd (rnd t * rnd t)" by (intro rnd_mono) simp_all
  then show ?thesis using pinf by (simp add: tracks_def)
next
  case ninf
  have "(2601::real) \<le> 2 ^ 1024" by simp
  with ninf have "2601 \<le> - rnd t" "1 \<le> - rnd t" by linarith+
  then have "2601 * 1 \<le> (- rnd t) * (- rnd t)" by (intro mult_mono) simp_all
  then have "rnd 2601 \<le> rnd (rnd t * rnd t)" by (intro rnd_mono) simp_all
  then show ?thesis using ninf by (simp add: tracks_def)
qed

lemma tracks_add:
  assumes "tracks p a" and "tracks q b" and "0 \<le> a" and "0 \<le> b"
  shows "tracks (d_add p q) (rnd (a + b))"
proof -
  have big: "2601 \<le> rnd (a + b)" if "2601 \<le> a + b"
    using rnd_mono [of 2601 "a + b"] that by simp
  have l: "(2601::real) \<le> 2 ^ 1024" by simp
  consider (ff) "p = Fin a" "q = Fin b" | (pi) "p = PInf" "2601 \<le> a" | (qi) "q = PInf" "2601 \<le> b"
    using assms(1,2) by (auto simp: tracks_def)
  then show ?thesis
  proof cases
    case ff
    have "0 \<le> a + b" using assms by simp
    then show ?thesis
    proof (cases "a + b" rule: toNum_nonneg_cases)
      case fin
      then show ?thesis using ff by (simp add: tracks_def)
    next
      case pinf
      then show ?thesis using ff l by (simp add: tracks_def)
    qed
  next
    case pi
    then have "2601 \<le> rnd (a + b)" using big assms(4) by simp
    moreover have "d_add PInf q = PInf"
      using assms(2) by (auto simp: tracks_def)
    ultimately show ?thesis using pi by (simp add: tracks_def)
  next
    case qi
    then have "2601 \<le> rnd (a + b)" using big assms(3) by simp
    moreover have "d_add p PInf = PInf"
      using assms(1) by (auto simp: tracks_def)
    ultimately show ?thesis using qi by (simp add: tracks_def)
  qed
qed

lemma tracks_sqrt:
  assumes "tracks p (rnd s)" and "0 \<le> s"
  shows "d_gt (d_sqrt p) (Fin 50) \<longleftrightarrow> 50 < rnd (sqrt (rnd s))"
proof -
  have n: "0 \<le> rnd s" using assms(2) by (rule rnd_nonneg)
  consider (f) "p = Fin (rnd s)" | (i) "p = PInf" "2601 \<le> rnd s"
    using assms(1) by (auto simp: tracks_def)
  then show ?thesis
  proof cases
    case f
    have "0 \<le> sqrt (rnd s)" using n by simp
    then show ?thesis
    proof (cases "sqrt (rnd s)" rule: toNum_nonneg_cases)
      case fin
      then show ?thesis using f n by simp
    next
      case pinf
      have "(50::real) < 2 ^ 1024" by simp
      with pinf have "50 < rnd (sqrt (rnd s))" by linarith
      then show ?thesis using f n pinf by simp
    qed
  next
    case i
    have "sqrt 2601 \<le> sqrt (rnd s)" using i(2) by (rule real_sqrt_le_mono)
    moreover have "sqrt 2601 = 51" by (rule real_sqrt_unique) simp_all
    ultimately have "51 \<le> sqrt (rnd s)" by (simp only:)
    from rnd_mono [of 51 "sqrt (rnd s)"] this have "50 < rnd (sqrt (rnd s))" by simp
    then show ?thesis using i by simp
  qed
qed

lemma rounded_distance_gt_iff:
  "d_gt (d_sqrt (d_add (d_pow2 (d_sub (Fin x1) (Fin x0))) (d_pow2 (d_sub (Fin y1) (Fin y0)))))
        (Fin 50)
     \<longleftrightarrow> 50 < chain (x1 - x0) (y1 - y0)"
proof -
  let ?A = "rnd (rnd (x1 - x0) * rnd (x1 - x0))"
  let ?B = "rnd (rnd (y1 - y0) * rnd (y1 - y0))"
  have a: "0 \<le> ?A" and b: "0 \<le> ?B" by (simp_all add: rnd_nonneg)
  have "tracks (d_add (d_pow2 (toNum (x1 - x0))) (d_pow2 (toNum (y1 - y0)))) (rnd (?A + ?B))"
    by (rule tracks_add [OF tracks_pow2 tracks_pow2 a b])
  from tracks_sqrt [OF this] a b show ?thesis
    by (simp add: chain_def)
qed

lemma sq_up:
  fixes a d u h :: real
  assumes e: "\<bar>a - d\<bar> \<le> u * \<bar>d\<bar> + h" and d: "\<bar>d\<bar> \<le> 50"
    and u: "0 \<le> u" "u \<le> 1 / 200" and h: "0 \<le> h" "h \<le> 1 / 2"
  shows "a * a \<le> d * d * (1 + u) ^ 2 + 101 * h"
proof -
  define m where "m = \<bar>d\<bar> * (1 + u) + h"
  have am: "\<bar>a\<bar> \<le> m" using e by (simp add: m_def algebra_simps)
  have "a * a = \<bar>a\<bar> * \<bar>a\<bar>" by simp
  also have "\<dots> \<le> m * m" using am by (intro mult_mono) (auto simp: m_def intro: order_trans)
  also have "m * m = d * d * (1 + u) ^ 2 + (2 * \<bar>d\<bar> * (1 + u) + h) * h"
    by (simp add: m_def power2_eq_square algebra_simps) 
  also have "\<dots> \<le> d * d * (1 + u) ^ 2 + 101 * h"
  proof -
    have "\<bar>d\<bar> * (1 + u) \<le> 50 * (1 + 1 / 200)"
      using d u by (intro mult_mono) simp_all
    then have "2 * \<bar>d\<bar> * (1 + u) + h \<le> 101" using h by simp
    then have "(2 * \<bar>d\<bar> * (1 + u) + h) * h \<le> 101 * h"
      using h(1) by (rule mult_right_mono)
    then show ?thesis by simp
  qed
  finally show ?thesis .
qed

lemma sq_low:
  fixes a d u h :: real
  assumes e: "\<bar>a - d\<bar> \<le> u * \<bar>d\<bar> + h"
    and u: "0 \<le> u" "u \<le> 1" and h: "0 \<le> h" "h \<le> 1"
  shows "d * d * ((1 - u) ^ 2 - h) - h \<le> a * a"
proof -
  define t where "t = \<bar>d\<bar> * (1 - u) - h"
  have at: "t \<le> \<bar>a\<bar>" using e by (simp add: t_def algebra_simps)
  show ?thesis
  proof (cases "0 \<le> t")
    case True
    define P where "P = d * d * (1 - u) ^ 2"
    define Q where "Q = 2 * \<bar>d\<bar> * (1 - u) * h"
    define R where "R = (1 + d * d) * h"
    have "t * t \<le> \<bar>a\<bar> * \<bar>a\<bar>" using at True by (intro mult_mono) simp_all
    then have 1: "t * t \<le> a * a" by simp
    have 2: "t * t = P - Q + h * h"
      by (simp add: t_def P_def Q_def power2_eq_square algebra_simps)
    have 3: "Q \<le> R"
    proof -
      have "0 \<le> (1 - \<bar>d\<bar>) ^ 2" by simp
      then have "2 * \<bar>d\<bar> \<le> 1 + d * d" by (simp add: power2_eq_square algebra_simps)
      moreover have "2 * \<bar>d\<bar> * (1 - u) \<le> 2 * \<bar>d\<bar> * 1"
        using u by (intro mult_left_mono) simp_all
      ultimately have "2 * \<bar>d\<bar> * (1 - u) \<le> 1 + d * d" by simp
      then show ?thesis unfolding Q_def R_def using h(1) by (rule mult_right_mono)
    qed
    have 4: "0 \<le> h * h" using h by simp
    have 5: "d * d * ((1 - u) ^ 2 - h) - h = P - R"
      by (simp add: P_def R_def algebra_simps)
    show ?thesis unfolding 5 using 1 2 3 4 by linarith
  next
    case False
    then have "\<bar>d\<bar> * (1 - u) < h" by (simp add: t_def)
    moreover have "0 \<le> \<bar>d\<bar> * (1 - u)" using u by simp
    ultimately have "(\<bar>d\<bar> * (1 - u)) * (\<bar>d\<bar> * (1 - u)) \<le> h * h"
      by (intro mult_mono) simp_all
    moreover have "h * h \<le> 1 * h" using h by (intro mult_right_mono) simp_all
    moreover have "(\<bar>d\<bar> * (1 - u)) * (\<bar>d\<bar> * (1 - u)) = d * d * (1 - u) ^ 2"
      by (simp add: power2_eq_square algebra_simps)
    ultimately have 1: "d * d * (1 - u) ^ 2 \<le> h" by simp
    have 2: "0 \<le> d * d * h" using h by simp
    have 3: "0 \<le> a * a" by simp
    have 4: "d * d * ((1 - u) ^ 2 - h) - h = d * d * (1 - u) ^ 2 - d * d * h - h"
      by (simp add: algebra_simps)
    show ?thesis unfolding 4 using 1 2 3 by linarith
  qed
qed

lemma rsq_up:
  fixes d :: real
  assumes "\<bar>d\<bar> \<le> 50"
  shows "rnd (rnd d * rnd d) \<le> d * d * (1 + 1 / 2 ^ 53) ^ 3 + 103 / 2 ^ 1075"
proof -
  define u :: real where "u = 1 / 2 ^ 53"
  define h :: real where "h = 1 / 2 ^ 1075"
  have u: "0 \<le> u" "u \<le> 1 / 200" by (simp_all add: u_def)
  have h: "0 \<le> h" "h \<le> 1 / 2" by (simp_all add: h_def)
  have e: "\<bar>rnd d - d\<bar> \<le> u * \<bar>d\<bar> + h"
    using rnd_error [of d] by (simp add: u_def h_def)
  have s: "rnd d * rnd d \<le> d * d * (1 + u) ^ 2 + 101 * h"
    by (rule sq_up [OF e assms u h])
  have "\<bar>rnd (rnd d * rnd d) - rnd d * rnd d\<bar> \<le> u * (rnd d * rnd d) + h"
    using rnd_error [of "rnd d * rnd d"] by (simp add: u_def h_def abs_mult)
  then have "rnd (rnd d * rnd d) \<le> (rnd d * rnd d) * (1 + u) + h"
    by (simp add: algebra_simps)
  also have "\<dots> \<le> (d * d * (1 + u) ^ 2 + 101 * h) * (1 + u) + h"
    using s u by (simp add: mult_right_mono)
  also have "\<dots> = d * d * (1 + u) ^ 3 + (101 * (1 + u) + 1) * h"
    by (simp add: power3_eq_cube power2_eq_square algebra_simps)
  also have "\<dots> \<le> d * d * (1 + u) ^ 3 + 103 * h"
  proof -
    have "101 * (1 + u) + 1 \<le> 103" using u by simp
    then have "(101 * (1 + u) + 1) * h \<le> 103 * h" using h(1) by (rule mult_right_mono)
    then show ?thesis by simp
  qed
  finally show ?thesis by (simp add: u_def h_def)
qed

lemma rsq_low:
  fixes d :: real
  shows "d * d * (((1 - 1 / 2 ^ 53) ^ 2 - 1 / 2 ^ 1075) * (1 - 1 / 2 ^ 53)) - 2 / 2 ^ 1075
           \<le> rnd (rnd d * rnd d)"
proof -
  define u :: real where "u = 1 / 2 ^ 53"
  define h :: real where "h = 1 / 2 ^ 1075"
  have u: "0 \<le> u" "u \<le> 1" by (simp_all add: u_def)
  have h: "0 \<le> h" "h \<le> 1" by (simp_all add: h_def)
  have e: "\<bar>rnd d - d\<bar> \<le> u * \<bar>d\<bar> + h"
    using rnd_error [of d] by (simp add: u_def h_def)
  have s: "d * d * ((1 - u) ^ 2 - h) - h \<le> rnd d * rnd d"
    by (rule sq_low [OF e u h])
  have "\<bar>rnd (rnd d * rnd d) - rnd d * rnd d\<bar> \<le> u * (rnd d * rnd d) + h"
    using rnd_error [of "rnd d * rnd d"] by (simp add: u_def h_def abs_mult)
  then have "(rnd d * rnd d) * (1 - u) - h \<le> rnd (rnd d * rnd d)"
    by (simp add: algebra_simps)
  moreover have "(d * d * ((1 - u) ^ 2 - h) - h) * (1 - u) \<le> (rnd d * rnd d) * (1 - u)"
    using s u by (intro mult_right_mono) simp_all
  moreover have "(d * d * ((1 - u) ^ 2 - h) - h) * (1 - u)
      = d * d * (((1 - u) ^ 2 - h) * (1 - u)) - h + h * u"
    by (simp add: algebra_simps)
  moreover have "0 \<le> h * u" using u h by simp
  ultimately have "d * d * (((1 - u) ^ 2 - h) * (1 - u)) - 2 * h \<le> rnd (rnd d * rnd d)"
    by linarith
  then show ?thesis by (simp add: u_def h_def)
qed

lemma chain_le:
  assumes "dx * dx + dy * dy \<le> (50 * (1 - 1 / 2 ^ 51)) ^ 2"
  shows "chain dx dy \<le> 50"
proof -
  let ?A = "rnd (rnd dx * rnd dx)" and ?B = "rnd (rnd dy * rnd dy)"
  have k: "(50 * (1 - 1 / 2 ^ 51)) ^ 2 \<le> (50::real) ^ 2"
    by (rule power_mono) simp_all
  have "dx * dx \<le> 50 ^ 2" "dy * dy \<le> 50 ^ 2"
    using assms k by (smt (verit) zero_le_square)+
  then have "dx ^ 2 \<le> 50 ^ 2" "dy ^ 2 \<le> 50 ^ 2" by (simp_all only: power2_eq_square)
  then have "\<bar>dx\<bar> \<le> \<bar>50\<bar>" "\<bar>dy\<bar> \<le> \<bar>50\<bar>"
    by (simp_all only: abs_le_square_iff)
  then have x: "\<bar>dx\<bar> \<le> 50" and y: "\<bar>dy\<bar> \<le> 50"
    by simp_all
  have "?A + ?B \<le> (dx * dx + dy * dy) * (1 + 1 / 2 ^ 53) ^ 3 + 206 / 2 ^ 1075"
    using rsq_up [OF x] rsq_up [OF y] by (simp add: algebra_simps)
  also have "\<dots> \<le> (50 * (1 - 1 / 2 ^ 51)) ^ 2 * (1 + 1 / 2 ^ 53) ^ 3 + 206 / 2 ^ 1075"
    using assms by (simp add: mult_right_mono)
  also have "\<dots> \<le> 2500" by (simp add: power2_eq_square power3_eq_cube)
  finally have s: "?A + ?B \<le> 2500" .
  have n: "0 \<le> ?A + ?B" by (simp add: rnd_nonneg)
  from rnd_mono [OF n s] have r: "rnd (?A + ?B) \<le> 2500" by simp
  then have "sqrt (rnd (?A + ?B)) \<le> sqrt 2500" by (rule real_sqrt_le_mono)
  moreover have "sqrt 2500 = 50" by (rule real_sqrt_unique) simp_all
  ultimately have q: "sqrt (rnd (?A + ?B)) \<le> 50" by (simp only:)
  have "0 \<le> sqrt (rnd (?A + ?B))" using n by (simp add: rnd_nonneg)
  from rnd_mono [OF this q] show ?thesis by (simp add: chain_def)
qed

lemma chain_gt:
  assumes "(50 * (1 + 1 / 2 ^ 51)) ^ 2 \<le> dx * dx + dy * dy"
  shows "50 < chain dx dy"
proof -
  let ?A = "rnd (rnd dx * rnd dx)" and ?B = "rnd (rnd dy * rnd dy)"
  let ?k = "((1 - 1 / 2 ^ 53) ^ 2 - 1 / 2 ^ 1075) * (1 - 1 / 2 ^ 53) :: real"
  have kpos: "0 \<le> ?k" by (simp add: power2_eq_square)
  have "2500 + 1 / 2 ^ 40 \<le> (50 * (1 + 1 / 2 ^ 51)) ^ 2 * ?k - 4 / 2 ^ 1075"
    by (simp add: power2_eq_square)
  also have "\<dots> \<le> (dx * dx + dy * dy) * ?k - 4 / 2 ^ 1075"
    using assms kpos by (simp only: mult_right_mono diff_right_mono)
  also have "\<dots> \<le> ?A + ?B"
    using rsq_low [of dx] rsq_low [of dy] by (simp only: distrib_right; linarith)
  finally have s: "2500 + 1 / 2 ^ 40 \<le> ?A + ?B" .
  have p: "0 \<le> (2500 + 1 / 2 ^ 40 :: real)" by simp
  have "2500 + 1 / 2 ^ 40 \<le> rnd (?A + ?B)"
    using rnd_mono [OF p s] unfolding rnd_above_2500 .
  moreover have "(50 + 1 / 2 ^ 47) ^ 2 \<le> (2500 + 1 / 2 ^ 40 :: real)"
    by (simp add: power2_eq_square)
  ultimately have "(50 + 1 / 2 ^ 47) ^ 2 \<le> rnd (?A + ?B)" by linarith
  then have "sqrt ((50 + 1 / 2 ^ 47) ^ 2) \<le> sqrt (rnd (?A + ?B))" by (rule real_sqrt_le_mono)
  then have q: "50 + 1 / 2 ^ 47 \<le> sqrt (rnd (?A + ?B))" by simp
  have p': "0 \<le> (50 + 1 / 2 ^ 47 :: real)" by simp
  have "50 + 1 / 2 ^ 47 \<le> chain dx dy"
    using rnd_mono [OF p' q] unfolding rnd_above_50 chain_def .
  then show ?thesis by (smt (verit) divide_pos_pos zero_less_power zero_less_numeral zero_less_one)
qed
section \<open>The sample states are states of the editor\<close>

text \<open>Adding two print nodes to a fresh editor gives the two-node editor of the examples
  below (and two commands in the history); loading the stored graph gives one node that
  keeps the identifier of the service.\<close>

lemma addNode_twice:
  "addNode \<lparr>pos_x = Fin 300, pos_y = Fin 0\<rparr>
     (addNode \<lparr>pos_x = Fin 0, pos_y = Fin 0\<rparr> (editor [] [] 1 None) ''print'' ''Print'')
     ''print'' ''Print''
   = (editor [printNode ''1'' 0 0 False, printNode ''2'' 300 0 False] [] 3 None)
       \<lparr>history := [ADD_NODE (printNode ''1'' 0 0 False), ADD_NODE (printNode ''2'' 300 0 False)]\<rparr>"
  by (simp add: addNode_def sample_defs toString.simps Let_def)

lemma loadedEditor_eq:
  "loadedEditor =
     (editor [printNode ''n-1'' 10 20 False] [] 1 (Some storedGraph))
       \<lparr>agentName := ''Agent Name'', agentDescription := ''Agent Description''\<rparr>"
  by (simp add: loadGraph_def sample_defs)

section \<open>The output type of a handle\<close>

lemma getOutputType_no_node:
  "find (\<lambda>node. nid node = i) (nodes st) = None \<Longrightarrow> getOutputType st i h = Inr (Some ''unknown'')"
  by (simp add: getOutputType_def)

lemma getOutputType_no_schema:
  "find (\<lambda>node. nid node = i) (nodes st) = Some n \<Longrightarrow> outputSchema (data n) = None
   \<Longrightarrow> getOutputType st i h = Inr (Some ''unknown'')"
  by (simp add: getOutputType_def)

text \<open>A handle named like a member of \<^verbatim>\<open>Object.prototype\<close> yields \<^verbatim>\<open>undefined\<close>.\<close>

lemma getOutputType_inherited_handle:
  "getOutputType (editor [printNode ''1'' 0 0 False] [] 2 None) ''1'' ''toString'' = Inr None"
  by (simp add: getOutputType_def sample_defs objectPrototypeNames_def)

text \<open>
  Claim C5.  The output-type lookup is said to be total: for a missing node, a missing
  output schema or a handle that the output schema does not declare it should report
  \<^verbatim>\<open>"unknown"\<close>.  The first two cases do (the two lemmas above).  For a handle the
  schema does not declare, \<^verbatim>\<open>outputSchema.properties[handleId]\<close> is \<^verbatim>\<open>undefined\<close>
  and reading its \<^verbatim>\<open>type\<close> throws: on a print node, whose output schema declares
  \<^verbatim>\<open>status\<close> only, the lookup of the handle \<^verbatim>\<open>result\<close> ends in a \<^verbatim>\<open>TypeError\<close>.
\<close>

theorem getOutputType_absent_handle_throws:
  "getOutputType (editor [printNode ''1'' 0 0 False] [] 2 None) ''1'' ''result'' = Inl TypeError"
  by (simp add: getOutputType_def sample_defs objectPrototypeNames_def)

section \<open>Connection lists and the edge set\<close>

lemma updateNodesOnEdgeChange_add_once:
  "map (\<lambda>node. connections (data node))
     (updateNodesOnEdgeChange (wireEdge False) Add
        [printNode ''1'' 0 0 False, printNode ''2'' 300 0 False])
   = [[wire], [wire]]"
  by (simp add: updateNodesOnEdgeChange_def sample_defs)

lemma remove_after_connect:
  "map_sum id
     (\<lambda>s. (edges (onEdgesChange_remove s ''1_status_2_text''),
           map (\<lambda>node. connections (data node)) (nodes (onEdgesChange_remove s ''1_status_2_text''))))
     (onConnect getTypeColor
        (editor [printNode ''1'' 0 0 False, printNode ''2'' 300 0 False] [] 3 None) wire)
   = Inr ([], [[], []])"
  by (simp add: onConnect_def getOutputType_def sample_defs handleString_def Let_def
      updateNodesOnEdgeChange_def addEdge_def connectionExists_def getNodePos_def
      onEdgesChange_remove_def)

text \<open>Deleting one of two edges between the same two nodes through \<^verbatim>\<open>onEdgesDelete\<close>
  clears the entries of both, whatever their handles.\<close>

lemma onEdgesDelete_ignores_handles:
  "map (\<lambda>node. connections (data node))
     (nodes (onEdgesDelete
        (editor [(printNode ''1'' 0 0 False)
                   \<lparr>data := (data (printNode ''1'' 0 0 False))
                      \<lparr>connections := [wire, wire\<lparr>targetHandle := Some ''label''\<rparr>]\<rparr>\<rparr>]
                [] 3 None)
        [wireEdge True]))
   = [[]]"
  by (simp add: onEdgesDelete_def sample_defs)

text \<open>
  Claim C1.  Every edge should appear exactly once in the connection list of its source
  and exactly once in that of its target; in particular one added edge should leave one
  entry on each endpoint.  \<^verbatim>\<open>onConnect\<close> registers the connection twice: once through
  \<^verbatim>\<open>updateNodesOnEdgeChange\<close> inside the \<^verbatim>\<open>setEdges\<close> updater and once more in its
  own \<^verbatim>\<open>setNodes\<close>.  Connecting two fresh print nodes yields one edge and two equal
  entries on each of the two nodes.
\<close>

theorem onConnect_registers_connection_twice:
  "map_sum id
     (\<lambda>s. (map connection.truncate (edges s), map (\<lambda>node. connections (data node)) (nodes s)))
     (onConnect getTypeColor
        (editor [printNode ''1'' 0 0 False, printNode ''2'' 300 0 False] [] 3 None) wire)
   = Inr ([wire], [[wire, wire], [wire, wire]])"
  by (simp add: onConnect_def getOutputType_def sample_defs handleString_def Let_def
      updateNodesOnEdgeChange_def addEdge_def connectionExists_def getNodePos_def
      connection.truncate_def)

section \<open>Saving an unchanged graph\<close>

lemma saveAgent_skip:
  assumes "savedAgent st = Some g"
    and "formattedNodes rt st (nodes st) = Inr fnodes"
    and "deepEquals (payloadOf st fnodes) g"
  shows "remoteCalls (saveAgent rt api st asTemplate) = []"
    and "returned (saveAgent rt api st asTemplate) = Inr None"
    and "savedAgent (after (saveAgent rt api st asTemplate)) = Some g"
  using assms by (simp_all add: saveAgent_def Let_def)

text \<open>
  Claim C2.  When the assembled payload equals the last-synced copy, no remote call
  should be made and the save should return the identifier obtained before.  The first
  half holds (lemma \<open>saveAgent_skip\<close>).  The skip is a bare \<^verbatim>\<open>return;\<close>, so the save
  returns \<^verbatim>\<open>undefined\<close>: on a graph loaded from the service and left untouched the
  save returns no identifier instead of \<^verbatim>\<open>g-1\<close>, and \<^verbatim>\<open>runAgent\<close>, which needs the
  identifier, logs an error and starts no run.
\<close>

theorem saveAgent_unchanged_returns_nothing:
  "remoteCalls (saveAgent rt api loadedEditor False) = [] \<and>
   returned (saveAgent rt api loadedEditor False) = Inr None \<and>
   snd (runAgent rt api loadedEditor) = (None, [''Error saving agent; aborting run''])"
  by (simp add: saveAgent_def runAgent_def sample_defs loadGraph_def Let_def formatNode_def
      prepareNodeInputData_def getNestedData.simps member_def objectPrototypeNames_def
      payloadOf_def deepEquals_def)

section \<open>Pasted edges\<close>

lemma rehome_no_title:
  "\<forall>n\<in>set newNodes. title (data n) \<noteq> endpoint \<Longrightarrow> rehome newNodes endpoint = endpoint"
  by (induction newNodes) (auto simp: rehome_def)

text \<open>
  Claim C7.  A copied edge whose two endpoints were copied with it should be pasted
  between the two new nodes.  The paste looks an endpoint up by comparing the display
  title of a pasted node with the node identifier the edge stores; a title is the block
  name followed by the identifier, so nothing is found and the endpoint stays.  Two
  connected print nodes, selected, copied with \<^verbatim>\<open>Ctrl+C\<close> and pasted with \<^verbatim>\<open>Ctrl+V\<close>:
  the new nodes are \<^verbatim>\<open>3\<close> and \<^verbatim>\<open>4\<close>, and the new edge runs from \<^verbatim>\<open>1\<close> to
  \<^verbatim>\<open>2\<close> again.
\<close>

theorem paste_keeps_original_endpoints:
  "(let st = handleKeyDown now'
               (handleKeyDown now
                  (editor [printNode ''1'' 0 0 True, printNode ''2'' 300 0 True] [wireEdge True] 3 None)
                  (ctrl ''c''))
               (ctrl ''v'')
    in (map nid (nodes st), map (\<lambda>e. (source e, target e)) (edges st)))
   = ([''1'', ''2'', ''3'', ''4''], [(''1'', ''2''), (''1'', ''2'')])"
  by (simp add: handleKeyDown_def sample_defs Let_def pasteNodes_def pasteEdges_def
      rehome_def toString.simps)

section \<open>Drag gestures and the history\<close>

lemma readRef_writeRef: "readRef (writeRef r key p) key = Stored p"
  by (simp add: readRef_def writeRef_def)

text \<open>While a drag is in progress a node change pushes no position command and leaves
  the recorded start positions alone.\<close>

lemma step_while_dragging:
  assumes "isDragging st"
  shows "\<exists>st'. onNodesChange_step nds change st = Inr st' \<and> isDragging st'
           \<and> initialPositionRef st' = initialPositionRef st
           \<and> positionCommands st' = positionCommands st"
  using assms by (cases change) (auto simp: positionCommands_def split: option.splits)

lemma forEach_while_dragging:
  assumes "isDragging st"
  shows "\<exists>st'. onNodesChange_forEach nds changes st = Inr st' \<and> isDragging st'
           \<and> initialPositionRef st' = initialPositionRef st
           \<and> positionCommands st' = positionCommands st"
  using assms
proof (induction changes arbitrary: st)
  case Nil
  then show ?case by simp
next
  case (Cons change changes)
  from step_while_dragging [OF Cons.prems, of nds change]
  obtain st1 where s: "onNodesChange_step nds change st = Inr st1" "isDragging st1"
    "initialPositionRef st1 = initialPositionRef st" "positionCommands st1 = positionCommands st"
    by blast
  from Cons.IH [OF s(2)] s show ?case by auto
qed

lemma onNodesChange_while_dragging:
  assumes "isDragging st"
  shows "\<exists>st'. onNodesChange st changes = Inr st' \<and> isDragging st'
           \<and> initialPositionRef st' = initialPositionRef st
           \<and> positionCommands st' = positionCommands st"
proof -
  from forEach_while_dragging [OF assms, of "nodes st" changes]
  obtain st1 where s: "onNodesChange_forEach (nodes st) changes st = Inr st1" "isDragging st1"
    "initialPositionRef st1 = initialPositionRef st" "positionCommands st1 = positionCommands st"
    by blast
  then show ?thesis by (simp add: onNodesChange_def positionCommands_def)
qed

lemma dragFrames_while_dragging:
  assumes "isDragging st"
  shows "\<exists>st'. dragFrames frames st = Inr st' \<and> isDragging st'
           \<and> initialPositionRef st' = initialPositionRef st
           \<and> positionCommands st' = positionCommands st"
  using assms
proof (induction frames arbitrary: st)
  case Nil
  then show ?case by simp
next
  case (Cons changes frames)
  from onNodesChange_while_dragging [OF Cons.prems, of changes]
  obtain st1 where s: "onNodesChange st changes = Inr st1" "isDragging st1"
    "initialPositionRef st1 = initialPositionRef st" "positionCommands st1 = positionCommands st"
    by blast
  from Cons.IH [OF s(2)] s show ?case by auto
qed

text \<open>A gesture on one node completes, whatever the intermediate frames report, and its
  effect on the history is decided by the comparison in \<^verbatim>\<open>onNodesChangeEnd\<close>.\<close>

lemma drag_gesture_history:
  assumes "nid endNode = nid startNode"
  shows "map_sum id positionCommands (dragGesture st startNode frames endNode) =
         Inr (positionCommands st @
              (if d_gt (distanceMoved (position endNode) (position startNode)) MINIMUM_MOVE_BEFORE_LOG
               then [UPDATE_NODE_POSITION (nid startNode) (position startNode) (position endNode)]
               else []))"
proof -
  let ?s0 = "onNodesChangeStart st startNode"
  have d: "isDragging ?s0" by (simp add: onNodesChangeStart_def)
  from dragFrames_while_dragging [OF d, of frames]
  obtain st1 where s: "dragFrames frames ?s0 = Inr st1"
    "initialPositionRef st1 = initialPositionRef ?s0" "positionCommands st1 = positionCommands ?s0"
    by blast
  have r: "readRef (initialPositionRef st1) (nid endNode) = Stored (position startNode)"
    using s(2) assms by (simp add: onNodesChangeStart_def readRef_writeRef)
  have h: "positionCommands st1 = positionCommands st"
    using s(3) by (simp add: onNodesChangeStart_def positionCommands_def)
  show ?thesis
    using s(1) r h assms
    by (simp add: dragGesture_def onNodesChangeEnd_def positionCommands_def Let_def)
qed

text \<open>The rounded distance against the exact one: a displacement of at least
  \<open>50 (1 + 2\<^sup>-\<^sup>5\<^sup>1)\<close> is above the threshold after rounding, one of at most
  \<open>50 (1 - 2\<^sup>-\<^sup>5\<^sup>1)\<close> is not.\<close>

lemma rounded_distance_above:
  assumes "50 * (1 + 1 / 2 ^ 51) \<le> sqrt ((x1 - x0)\<^sup>2 + (y1 - y0)\<^sup>2)"
  shows "d_gt (distanceMoved \<lparr>pos_x = Fin x1, pos_y = Fin y1\<rparr> \<lparr>pos_x = Fin x0, pos_y = Fin y0\<rparr>)
           MINIMUM_MOVE_BEFORE_LOG"
proof -
  have "\<bar>50 * (1 + 1 / 2 ^ 51)\<bar> \<le> sqrt ((x1 - x0)\<^sup>2 + (y1 - y0)\<^sup>2)"
    using assms by simp
  then have "(50 * (1 + 1 / 2 ^ 51))\<^sup>2 \<le> (x1 - x0)\<^sup>2 + (y1 - y0)\<^sup>2"
    by (rule sqrt_ge_absD)
  then have "(50 * (1 + 1 / 2 ^ 51))\<^sup>2 \<le> (x1 - x0) * (x1 - x0) + (y1 - y0) * (y1 - y0)"
    by (simp only: power2_eq_square)
  from chain_gt [OF this] show ?thesis
    by (simp only: distanceMoved_def MINIMUM_MOVE_BEFORE_LOG_def position.simps
        rounded_distance_gt_iff)
qed

lemma rounded_distance_below:
  assumes "sqrt ((x1 - x0)\<^sup>2 + (y1 - y0)\<^sup>2) \<le> 50 * (1 - 1 / 2 ^ 51)"
  shows "\<not> d_gt (distanceMoved \<lparr>pos_x = Fin x1, pos_y = Fin y1\<rparr> \<lparr>pos_x = Fin x0, pos_y = Fin y0\<rparr>)
             MINIMUM_MOVE_BEFORE_LOG"
proof -
  from assms have "(x1 - x0)\<^sup>2 + (y1 - y0)\<^sup>2 \<le> (50 * (1 - 1 / 2 ^ 51))\<^sup>2"
    by (rule sqrt_le_D)
  then have "(x1 - x0) * (x1 - x0) + (y1 - y0) * (y1 - y0) \<le> (50 * (1 - 1 / 2 ^ 51))\<^sup>2"
    by (simp only: power2_eq_square)
  from chain_le [OF this] have "\<not> 50 < chain (x1 - x0) (y1 - y0)" by simp
  then show ?thesis
    by (simp only: distanceMoved_def MINIMUM_MOVE_BEFORE_LOG_def position.simps
        rounded_distance_gt_iff simp_thms)
qed

text \<open>
  Claim C8, as stated: one command when the Euclidean displacement exceeds 50, none
  otherwise.  The handler compares the distance it has computed in double arithmetic.  A
  drag from \<open>(0, 0)\<close> to \<open>(50, 2\<^sup>-\<^sup>2\<^sup>4)\<close> has a displacement above 50, but
  \<open>2500 + 2\<^sup>-\<^sup>4\<^sup>8\<close> rounds to \<open>2500\<close>, the computed distance is \<open>50\<close>, and nothing is
  pushed.
\<close>

theorem drag_just_beyond_threshold_pushes_nothing:
  "map_sum id positionCommands
     (dragGesture (editor [printNode ''1'' 0 0 False] [] 2 None) (printNode ''1'' 0 0 False) []
        (printNode ''1'' 50 (1 / 2 ^ 24) False))
   = Inr []
   \<and> 50 < sqrt ((50 - 0)\<^sup>2 + (1 / 2 ^ 24 - 0)\<^sup>2 :: real)"
proof -
  have 1: "d_sub (Fin 50) (Fin 0) = Fin 50" by simp
  have 2: "d_sub (Fin (1 / 2 ^ 24)) (Fin 0) = Fin (1 / 2 ^ 24)"
    by (simp only: d_sub.simps diff_zero toNum_small_y)
  have 3: "d_pow2 (Fin 50) = Fin 2500" by simp
  have "(1 / 2 ^ 24) * (1 / 2 ^ 24) = (1 / 2 ^ 48 :: real)" by simp
  then have 4: "d_pow2 (Fin (1 / 2 ^ 24)) = Fin (1 / 2 ^ 48)"
    by (simp only: d_pow2.simps toNum_small_square)
  have 5: "d_add (Fin 2500) (Fin (1 / 2 ^ 48)) = Fin 2500"
    by (simp only: d_add.simps toNum_just_above_2500)
  have "sqrt 2500 = 50" by (rule real_sqrt_unique) simp_all
  then have 6: "d_sqrt (Fin 2500) = Fin 50" by simp
  have dist: "distanceMoved \<lparr>pos_x = Fin 50, pos_y = Fin (1 / 2 ^ 24)\<rparr> \<lparr>pos_x = Fin 0, pos_y = Fin 0\<rparr>
                = Fin 50"
    unfolding distanceMoved_def by (simp only: position.simps 1 2 3 4 5 6)
  have p0: "position (printNode ''1'' 0 0 False) = \<lparr>pos_x = Fin 0, pos_y = Fin 0\<rparr>"
    and p1: "position (printNode ''1'' 50 (1 / 2 ^ 24) False) = \<lparr>pos_x = Fin 50, pos_y = Fin (1 / 2 ^ 24)\<rparr>"
    and i: "nid (printNode ''1'' 50 (1 / 2 ^ 24) False) = nid (printNode ''1'' 0 0 False)"
    by (simp_all only: printNode_def node.simps)
  have e: "positionCommands (editor [printNode ''1'' 0 0 False] [] 2 None) = []"
    by (simp add: positionCommands_def editor_def)
  have a: "map_sum id positionCommands
     (dragGesture (editor [printNode ''1'' 0 0 False] [] 2 None) (printNode ''1'' 0 0 False) []
        (printNode ''1'' 50 (1 / 2 ^ 24) False)) = Inr []"
    unfolding drag_gesture_history [OF i] p0 p1 dist e
    by (simp add: MINIMUM_MOVE_BEFORE_LOG_def)
  have "(50::real)\<^sup>2 < (50 - 0)\<^sup>2 + (1 / 2 ^ 24 - 0)\<^sup>2" by simp
  then have b: "50 < sqrt ((50 - 0)\<^sup>2 + (1 / 2 ^ 24 - 0)\<^sup>2 :: real)"
    by (rule real_less_rsqrt)
  from a b show ?thesis by (rule conjI)
qed

text \<open>
  Claim C8, amended.  A drag gesture that starts on a node and ends on the same node
  always completes, whatever node changes the intermediate frames report, and it appends
  at most one \<^verbatim>\<open>UPDATE_NODE_POSITION\<close> command to the history: one exactly when
  \<^verbatim>\<open>Math.sqrt(Math.pow(x1 - x0, 2) + Math.pow(y1 - y0, 2)) > 50\<close> holds in double
  arithmetic.  For finite coordinates this is the case whenever the Euclidean displacement
  \<open>sqrt ((x1 - x0)\<^sup>2 + (y1 - y0)\<^sup>2)\<close> is at least \<open>50 (1 + 2\<^sup>-\<^sup>5\<^sup>1)\<close>, and it is not
  the case whenever the displacement is at most \<open>50 (1 - 2\<^sup>-\<^sup>5\<^sup>1)\<close>.
\<close>

theorem drag_gesture_pushes_once_beyond_threshold:
  assumes "nid endNode = nid startNode"
  shows "map_sum id positionCommands (dragGesture st startNode frames endNode) =
           Inr (positionCommands st @
                (if d_gt (d_sqrt (d_add (d_pow2 (d_sub (pos_x (position endNode))
                                                       (pos_x (position startNode))))
                                        (d_pow2 (d_sub (pos_y (position endNode))
                                                       (pos_y (position startNode))))))
                         (Fin 50)
                 then [UPDATE_NODE_POSITION (nid startNode) (position startNode) (position endNode)]
                 else []))
         \<and> (\<forall>x0 y0 x1 y1.
               position startNode = \<lparr>pos_x = Fin x0, pos_y = Fin y0\<rparr> \<longrightarrow>
               position endNode = \<lparr>pos_x = Fin x1, pos_y = Fin y1\<rparr> \<longrightarrow>
                 (50 * (1 + 1 / 2 ^ 51) \<le> sqrt ((x1 - x0)\<^sup>2 + (y1 - y0)\<^sup>2) \<longrightarrow>
                    map_sum id positionCommands (dragGesture st startNode frames endNode) =
                      Inr (positionCommands st @
                           [UPDATE_NODE_POSITION (nid startNode) (position startNode)
                              (position endNode)]))
               \<and> (sqrt ((x1 - x0)\<^sup>2 + (y1 - y0)\<^sup>2) \<le> 50 * (1 - 1 / 2 ^ 51) \<longrightarrow>
                    map_sum id positionCommands (dragGesture st startNode frames endNode) =
                      Inr (positionCommands st)))"
proof (intro conjI allI impI)
  show "map_sum id positionCommands (dragGesture st startNode frames endNode) =
           Inr (positionCommands st @
                (if d_gt (d_sqrt (d_add (d_pow2 (d_sub (pos_x (position endNode))
                                                       (pos_x (position startNode))))
                                        (d_pow2 (d_sub (pos_y (position endNode))
                                                       (pos_y (position startNode))))))
                         (Fin 50)
                 then [UPDATE_NODE_POSITION (nid startNode) (position startNode) (position endNode)]
                 else []))"
    using drag_gesture_history [OF assms, of st frames]
    by (simp only: distanceMoved_def MINIMUM_MOVE_BEFORE_LOG_def)
next
  fix x0 y0 x1 y1
  assume p: "position startNode = \<lparr>pos_x = Fin x0, pos_y = Fin y0\<rparr>"
    "position endNode = \<lparr>pos_x = Fin x1, pos_y = Fin y1\<rparr>"
  {
    assume "50 * (1 + 1 / 2 ^ 51) \<le> sqrt ((x1 - x0)\<^sup>2 + (y1 - y0)\<^sup>2)"
    from rounded_distance_above [OF this]
    show "map_sum id positionCommands (dragGesture st startNode frames endNode) =
            Inr (positionCommands st @
                 [UPDATE_NODE_POSITION (nid startNode) (position startNode) (position endNode)])"
      unfolding drag_gesture_history [OF assms] p by simp
  next
    assume "sqrt ((x1 - x0)\<^sup>2 + (y1 - y0)\<^sup>2) \<le> 50 * (1 - 1 / 2 ^ 51)"
    from rounded_distance_below [OF this]
    show "map_sum id positionCommands (dragGesture st startNode frames endNode) =
            Inr (positionCommands st)"
      unfolding drag_gesture_history [OF assms] p by simp
  }
qed

text \<open>A drag of 100 units leaves one command, a drag of 10 units none.\<close>

theorem drag_gesture_hundred_and_ten_units:
  "map_sum id positionCommands
     (dragGesture (editor [printNode ''1'' 0 0 False] [] 2 None) (printNode ''1'' 0 0 False)
        [[PositionChange ''1'' (Some \<lparr>pos_x = Fin 60, pos_y = Fin 0\<rparr>)], [PositionChange ''1'' None]]
        (printNode ''1'' 100 0 False))
   = Inr [UPDATE_NODE_POSITION ''1'' \<lparr>pos_x = Fin 0, pos_y = Fin 0\<rparr> \<lparr>pos_x = Fin 100, pos_y = Fin 0\<rparr>]
   \<and> map_sum id positionCommands
     (dragGesture (editor [printNode ''1'' 0 0 False] [] 2 None) (printNode ''1'' 0 0 False)
        [[PositionChange ''1'' (Some \<lparr>pos_x = Fin 6, pos_y = Fin 0\<rparr>)]]
        (printNode ''1'' 10 0 False))
   = Inr []"
proof -
  let ?st = "editor [printNode ''1'' 0 0 False] [] 2 None"
  have i: "nid (printNode ''1'' 100 0 False) = nid (printNode ''1'' 0 0 False)"
    and j: "nid (printNode ''1'' 10 0 False) = nid (printNode ''1'' 0 0 False)"
    by (simp_all add: printNode_def)
  have p0: "position (printNode ''1'' 0 0 False) = \<lparr>pos_x = Fin 0, pos_y = Fin 0\<rparr>"
    and p1: "position (printNode ''1'' 100 0 False) = \<lparr>pos_x = Fin 100, pos_y = Fin 0\<rparr>"
    and p2: "position (printNode ''1'' 10 0 False) = \<lparr>pos_x = Fin 10, pos_y = Fin 0\<rparr>"
    by (simp_all add: printNode_def)
  have far: "50 * (1 + 1 / 2 ^ 51) \<le> sqrt ((100 - 0)\<^sup>2 + (0 - 0)\<^sup>2 :: real)"
    by simp
  have near: "sqrt ((10 - 0)\<^sup>2 + (0 - 0)\<^sup>2 :: real) \<le> 50 * (1 - 1 / 2 ^ 51)"
    by simp
  note a = drag_gesture_pushes_once_beyond_threshold
      [OF i, of ?st "[[PositionChange ''1'' (Some \<lparr>pos_x = Fin 60, pos_y = Fin 0\<rparr>)],
                      [PositionChange ''1'' None]]",
       THEN conjunct2, rule_format, OF p0 p1, THEN conjunct1, rule_format, OF far]
  note b = drag_gesture_pushes_once_beyond_threshold
      [OF j, of ?st "[[PositionChange ''1'' (Some \<lparr>pos_x = Fin 6, pos_y = Fin 0\<rparr>)]]",
       THEN conjunct2, rule_format, OF p0 p2, THEN conjunct2, rule_format, OF near]
  have e: "positionCommands ?st = []"
    by (simp add: positionCommands_def editor_def)
  have n: "nid (printNode ''1'' 0 0 False) = ''1''"
    by (simp add: printNode_def)
  show ?thesis
    unfolding a b e p0 p1 n by simp
qed

section \<open>The composed input\<close>

lemma getNestedData_unfold:
  "getNestedData rt schema vals =
     (case (case properties schema of
              None \<Rightarrow> Inr []
            | Some props \<Rightarrow> fold (declaredStep rt props vals) (map fst props) (Inr [])) of
        Inl e \<Rightarrow> Inl e
      | Inr inputData \<Rightarrow>
          if additionalProperties schema then Inr (spread inputData (ownEntries vals))
          else Inr inputData)"
  unfolding declaredStep_def [abs_def] by (subst getNestedData.simps) (rule refl)

lemma map_of_obj_set: "map_of (obj_set a key v) = (map_of a)(key \<mapsto> v)"
  by (induction a key v rule: obj_set.induct) auto

lemma map_of_assign:
  "map_of (assign a key v) = (if key = ''__proto__'' then map_of a else (map_of a)(key \<mapsto> v))"
  by (simp add: assign_def map_of_obj_set)

lemma map_of_spread:
  "distinct (map fst b) \<Longrightarrow> map_of (spread a b) = map_of a ++ map_of b"
proof (induction b arbitrary: a)
  case Nil
  then show ?case by (simp add: spread_def)
next
  case (Cons p b)
  obtain k v where p: "p = (k, v)" by (cases p)
  from Cons.prems p have d: "distinct (map fst b)" and n: "map_of b k = None"
    by (auto simp: map_of_eq_None_iff)
  have "spread a (p # b) = spread (obj_set a k v) b"
    by (simp add: spread_def p)
  then have "map_of (spread a (p # b)) = (map_of a)(k \<mapsto> v) ++ map_of b"
    using Cons.IH [OF d, of "obj_set a k v"] by (simp only: map_of_obj_set)
  also have "\<dots> = map_of a ++ map_of (p # b)"
    using n by (auto simp: p map_add_def fun_eq_iff split: option.splits)
  finally show ?case .
qed

lemma fold_declaredStep_Inl: "fold (declaredStep rt props vals) keys (Inl e) = Inl e"
  by (induction keys) (simp_all add: declaredStep_def)

text \<open>One round on a plain object, by cases.\<close>

lemma declaredStep_absent:
  "member vs key = None \<Longrightarrow> declaredStep rt props (JObj vs) key (Inr acc) = Inr acc"
  by (simp add: declaredStep_def)

lemma declaredStep_plain:
  "member vs key = Some v \<Longrightarrow> map_of props key = Some sub \<Longrightarrow> stype sub \<noteq> Some ''object''
   \<Longrightarrow> declaredStep rt props (JObj vs) key (Inr acc) = Inr (assign acc key v)"
  by (simp add: declaredStep_def)

lemma declaredStep_nested:
  "member vs key = Some v \<Longrightarrow> map_of props key = Some sub \<Longrightarrow> stype sub = Some ''object''
   \<Longrightarrow> declaredStep rt props (JObj vs) key (Inr acc) =
         (case getNestedData rt sub v of
            Inl e \<Rightarrow> Inl e
          | Inr nested \<Rightarrow> Inr (assign acc key (JObj nested)))"
  by (simp add: declaredStep_def)

lemma fold_declaredStep:
  assumes "fold (declaredStep rt props (JObj vs)) keys (Inr acc) = Inr r"
    and "set keys \<subseteq> fst ` set props"
  shows "map_of r k =
           (if k \<in> set keys \<and> k \<noteq> ''__proto__'' \<and> member vs k \<noteq> None
            then (case map_of props k of
                    None \<Rightarrow> None
                  | Some sub \<Rightarrow>
                      (case member vs k of
                         None \<Rightarrow> None
                       | Some v \<Rightarrow> if stype sub = Some ''object''
                                  then (case getNestedData rt sub v of
                                          Inl e \<Rightarrow> None
                                        | Inr nested \<Rightarrow> Some (JObj nested))
                                  else Some v))
            else map_of acc k)
         \<and> (\<forall>sub v. k \<in> set keys \<longrightarrow> map_of props k = Some sub \<longrightarrow> member vs k = Some v
               \<longrightarrow> stype sub = Some ''object'' \<longrightarrow> (\<exists>nested. getNestedData rt sub v = Inr nested))"
  using assms
proof (induction keys arbitrary: acc)
  case Nil
  then show ?case by simp
next
  case (Cons key keys)
  let ?step = "declaredStep rt props (JObj vs) key (Inr acc)"
  from Cons.prems(1) have f: "fold (declaredStep rt props (JObj vs)) keys ?step = Inr r"
    by simp
  then obtain acc' where a: "?step = Inr acc'"
    by (cases ?step) (simp_all add: fold_declaredStep_Inl)
  from Cons.prems(2) have sub: "set keys \<subseteq> fst ` set props" by simp
  from f a have "fold (declaredStep rt props (JObj vs)) keys (Inr acc') = Inr r" by simp
  note IH = Cons.IH [OF this sub]
  from Cons.prems(2) obtain s where s: "map_of props key = Some s"
    by (cases "map_of props key") (auto simp: map_of_eq_None_iff)
  show ?case
  proof (cases "member vs key")
    case None
    with a have "acc' = acc" by (simp add: declaredStep_absent)
    with IH None show ?thesis by auto
  next
    case (Some v)
    show ?thesis
    proof (cases "stype s = Some ''object''")
      case True
      with a Some s obtain nested where n: "getNestedData rt s v = Inr nested"
        and acc': "acc' = assign acc key (JObj nested)"
        by (cases "getNestedData rt s v") (auto simp: declaredStep_nested)
      from IH acc' n Some s True show ?thesis
        by (auto simp: map_of_assign)
    next
      case False
      with a Some s have acc': "acc' = assign acc key v"
        by (auto simp: declaredStep_plain)
      from IH acc' Some s False show ?thesis
        by (auto simp: map_of_assign)
    qed
  qed
qed

lemma fold_declaredStep_error:
  assumes "fold (declaredStep rt props (JObj vs)) keys (Inr acc) = Inl e"
    and "set keys \<subseteq> fst ` set props"
  shows "\<exists>k sub v. k \<in> set keys \<and> map_of props k = Some sub \<and> member vs k = Some v
           \<and> stype sub = Some ''object'' \<and> getNestedData rt sub v = Inl e"
  using assms
proof (induction keys arbitrary: acc)
  case Nil
  then show ?case by simp
next
  case (Cons key keys)
  let ?step = "declaredStep rt props (JObj vs) key (Inr acc)"
  from Cons.prems(1) have f: "fold (declaredStep rt props (JObj vs)) keys ?step = Inl e"
    by simp
  from Cons.prems(2) have sub: "set keys \<subseteq> fst ` set props" by simp
  from Cons.prems(2) obtain s where s: "map_of props key = Some s"
    by (cases "map_of props key") (auto simp: map_of_eq_None_iff)
  show ?case
  proof (cases ?step)
    case (Inr acc')
    with f have "fold (declaredStep rt props (JObj vs)) keys (Inr acc') = Inl e" by simp
    from Cons.IH [OF this sub] show ?thesis by auto
  next
    case (Inl e')
    with f have e': "e' = e" by (simp add: fold_declaredStep_Inl)
    from Inl obtain v where v: "member vs key = Some v"
      by (cases "member vs key") (simp_all add: declaredStep_absent)
    from Inl v s have t: "stype s = Some ''object''"
      by (cases "stype s = Some ''object''") (simp_all add: declaredStep_plain)
    from Inl v s t e' have "getNestedData rt s v = Inl e"
      by (cases "getNestedData rt s v") (simp_all add: declaredStep_nested)
    with v s t show ?thesis by auto
  qed
qed

lemma compose_example:
  "getNestedData rt exampleSchema (JObj [(''a'', JStr ''x''), (''b'', JObj [(''c'', JNum (Fin 5))])])
   = Inr [(''a'', JStr ''x''), (''b'', JObj [(''c'', JNum (Fin 5))])]"
  by (simp add: schema_defs getNestedData.simps member_def assign_def)

lemma compose_open_example:
  "getNestedData rt openSchema (JObj [(''a'', JStr ''x''), (''z'', JNum (Fin 9))])
   = Inr [(''a'', JStr ''x''), (''z'', JNum (Fin 9))]"
  by (simp add: schema_defs getNestedData.simps member_def assign_def spread_def)

text \<open>What the composer returns on a plain object, in terms of the property read
  \<open>member\<close>.\<close>

lemma getNestedData_by_member:
  assumes "distinct (map fst vs)"
  shows "case getNestedData rt s (JObj vs) of
           Inl e \<Rightarrow>
             (\<exists>k sub v. declared s k = Some sub \<and> member vs k = Some v
                \<and> stype sub = Some ''object'' \<and> getNestedData rt sub v = Inl e)
         | Inr r \<Rightarrow>
             (\<forall>k. map_of r k =
                (if additionalProperties s \<and> map_of vs k \<noteq> None then map_of vs k
                 else if k = ''__proto__'' then None
                 else case declared s k of
                        None \<Rightarrow> None
                      | Some sub \<Rightarrow>
                          (case member vs k of
                             None \<Rightarrow> None
                           | Some v \<Rightarrow>
                               if stype sub = Some ''object''
                               then (case getNestedData rt sub v of
                                       Inl e \<Rightarrow> None
                                     | Inr nested \<Rightarrow> Some (JObj nested))
                               else Some v)))
             \<and> (\<forall>k sub v. declared s k = Some sub \<longrightarrow> member vs k = Some v
                   \<longrightarrow> stype sub = Some ''object''
                   \<longrightarrow> (\<exists>nested. getNestedData rt sub v = Inr nested))"
proof (cases "properties s")
  case None
  then have r: "getNestedData rt s (JObj vs) = Inr (if additionalProperties s then spread [] vs else [])"
    by (simp add: getNestedData_unfold)
  show ?thesis
    using None map_of_spread [OF assms, of "[]"] by (simp add: r declared_def)
next
  case (Some props)
  have keys: "set (map fst props) \<subseteq> fst ` set props" by simp
  have dk: "declared s k = map_of props k" for k
    by (simp add: declared_def Some)
  have in_keys: "k \<in> set (map fst props)" if "map_of props k \<noteq> None" for k
    using that by (auto simp: map_of_eq_None_iff)
  show ?thesis
  proof (cases "fold (declaredStep rt props (JObj vs)) (map fst props) (Inr [])")
    case (Inl e)
    then have r: "getNestedData rt s (JObj vs) = Inl e"
      by (simp add: getNestedData_unfold Some)
    from fold_declaredStep_error [OF Inl keys] show ?thesis
      by (auto simp: r dk)
  next
    case (Inr inputData)
    then have r: "getNestedData rt s (JObj vs) =
                    Inr (if additionalProperties s then spread inputData vs else inputData)"
      by (simp add: getNestedData_unfold Some)
    note d = fold_declaredStep [OF Inr keys]
    have nested: "\<exists>nested. getNestedData rt sub v = Inr nested"
      if "declared s k = Some sub" "member vs k = Some v" "stype sub = Some ''object''" for k sub v
      using d [of k] that in_keys [of k] by (simp add: dk)
    have own: "member vs k \<noteq> None" if "map_of vs k \<noteq> None" for k
      using that by (auto simp: member_def)
    have bound: "map_of (if additionalProperties s then spread inputData vs else inputData) k =
                (if additionalProperties s \<and> map_of vs k \<noteq> None then map_of vs k
                 else if k = ''__proto__'' then None
                 else case declared s k of
                        None \<Rightarrow> None
                      | Some sub \<Rightarrow>
                          (case member vs k of
                             None \<Rightarrow> None
                           | Some v \<Rightarrow>
                               if stype sub = Some ''object''
                               then (case getNestedData rt sub v of
                                       Inl e \<Rightarrow> None
                                     | Inr nested \<Rightarrow> Some (JObj nested))
                               else Some v))" for k
    proof (cases "additionalProperties s \<and> map_of vs k \<noteq> None")
      case True
      then show ?thesis
        by (auto simp: map_of_spread [OF assms] map_add_def)
    next
      case False
      then have "map_of (if additionalProperties s then spread inputData vs else inputData) k
                   = map_of inputData k"
        by (auto simp: map_of_spread [OF assms] map_add_def)
      moreover have "map_of inputData k =
                (if k = ''__proto__'' then None
                 else case declared s k of
                        None \<Rightarrow> None
                      | Some sub \<Rightarrow>
                          (case member vs k of
                             None \<Rightarrow> None
                           | Some v \<Rightarrow>
                               if stype sub = Some ''object''
                               then (case getNestedData rt sub v of
                                       Inl e \<Rightarrow> None
                                     | Inr nested \<Rightarrow> Some (JObj nested))
                               else Some v))"
        using d [of k] in_keys [of k] by (auto simp: dk split: option.splits)
      ultimately show ?thesis by (simp only: if_not_P [OF False])
    qed
    from bound nested show ?thesis
      unfolding r by simp
  qed
qed

text \<open>
  Claim C4, as stated: every schema and value map compose; a declared property is copied
  when it is present in the value map; and with additional properties allowed "undeclared
  keys pass through while declared keys remain the structurally recursed results".  Three
  inputs show otherwise.  The spread \<^verbatim>\<open>{...inputData, ...values}\<close> lets the raw values
  win: for a schema with additional properties that declares the object \<^verbatim>\<open>b\<close> with the
  one property \<^verbatim>\<open>c\<close>, the values \<^verbatim>\<open>{b: {c: 5, d: 6}}\<close> compose to themselves, although
  the recursion on \<^verbatim>\<open>b\<close> alone yields \<^verbatim>\<open>{c: 5}\<close>.  The values \<^verbatim>\<open>{b: null}\<close> under the
  schema of the first example do not compose: the recursion reads \<^verbatim>\<open>null["c"]\<close> and
  throws.  And a schema that declares the string \<^verbatim>\<open>constructor\<close> composes the empty
  value map to a map that binds \<^verbatim>\<open>constructor\<close>, to the member every object inherits.
\<close>

theorem additional_properties_overwrite_declared:
  "\<forall>rt.
     getNestedData rt openNestedSchema (JObj [(''b'', JObj [(''c'', JNum (Fin 5)), (''d'', JNum (Fin 6))])])
       = Inr [(''b'', JObj [(''c'', JNum (Fin 5)), (''d'', JNum (Fin 6))])]
     \<and> getNestedData rt nestedSchema (JObj [(''c'', JNum (Fin 5)), (''d'', JNum (Fin 6))])
       = Inr [(''c'', JNum (Fin 5))]
     \<and> JObj [(''c'', JNum (Fin 5)), (''d'', JNum (Fin 6))] \<noteq> JObj [(''c'', JNum (Fin 5))]
     \<and> getNestedData rt exampleSchema (JObj [(''b'', JNull)]) = Inl TypeError
     \<and> getNestedData rt namedSchema (JObj []) = Inr [(''constructor'', JBuiltin ''constructor'')]"
  by (simp add: schema_defs getNestedData.simps member_def assign_def spread_def
      objectPrototypeNames_def)

text \<open>
  Claim C4, amended.  For a schema and a value map (a plain object with unique keys),
  where \<open>look\<close> is the read of the value map, which finds its own properties and the
  members of \<^verbatim>\<open>Object.prototype\<close>: the composer throws exactly when a declared property of
  type \<^verbatim>\<open>object\<close> that the value map holds or inherits has a nested composition that
  throws.  Otherwise, with additional properties allowed, the result binds every own key
  of the value map to its raw value; and it binds every other declared key that the value
  map holds or inherits, except \<^verbatim>\<open>__proto__\<close>, to that value, or to the composition of
  the nested schema with that value when the declared type is \<^verbatim>\<open>object\<close>; and it binds
  nothing else.
\<close>

theorem getNestedData_composes:
  assumes "distinct (map fst vs)"
    and "look = (\<lambda>k. case map_of vs k of
                    Some v \<Rightarrow> Some v
                  | None \<Rightarrow>
                      if k \<in> {''constructor'', ''hasOwnProperty'', ''isPrototypeOf'', ''propertyIsEnumerable'',
                          ''toLocaleString'', ''toString'', ''valueOf'', ''__proto__'',
                          ''__defineGetter__'', ''__defineSetter__'', ''__lookupGetter__'',
                          ''__lookupSetter__''}
                      then Some (JBuiltin k) else None)"
  shows "case getNestedData rt s (JObj vs) of
           Inl e \<Rightarrow>
             (\<exists>k sub v. declared s k = Some sub \<and> look k = Some v
                \<and> stype sub = Some ''object'' \<and> getNestedData rt sub v = Inl e)
         | Inr r \<Rightarrow>
             (\<forall>k. map_of r k =
                (if additionalProperties s \<and> map_of vs k \<noteq> None then map_of vs k
                 else if k = ''__proto__'' then None
                 else case declared s k of
                        None \<Rightarrow> None
                      | Some sub \<Rightarrow>
                          (case look k of
                             None \<Rightarrow> None
                           | Some v \<Rightarrow>
                               if stype sub = Some ''object''
                               then (case getNestedData rt sub v of
                                       Inl e \<Rightarrow> None
                                     | Inr nested \<Rightarrow> Some (JObj nested))
                               else Some v)))
             \<and> (\<forall>k sub v. declared s k = Some sub \<longrightarrow> look k = Some v
                   \<longrightarrow> stype sub = Some ''object''
                   \<longrightarrow> (\<exists>nested. getNestedData rt sub v = Inr nested))"
proof -
  have e: "look = member vs"
    unfolding assms(2) by (rule ext) (simp add: member_def objectPrototypeNames_def)
  show ?thesis
    unfolding e by (rule getNestedData_by_member [OF assms(1)])
qed

text \<open>The two examples of the claim: the nested schema, and the open schema that
  lets the undeclared \<^verbatim>\<open>z\<close> through.\<close>

theorem getNestedData_composes_examples:
  "\<forall>rt.
     getNestedData rt exampleSchema (JObj [(''a'', JStr ''x''), (''b'', JObj [(''c'', JNum (Fin 5))])])
       = Inr [(''a'', JStr ''x''), (''b'', JObj [(''c'', JNum (Fin 5))])]
     \<and> map_of [(''a'', JStr ''x''), (''b'', JObj [(''c'', JNum (Fin 5))])] ''b''
       = Some (JObj [(''c'', JNum (Fin 5))])
     \<and> getNestedData rt openSchema (JObj [(''a'', JStr ''x''), (''z'', JNum (Fin 9))])
       = Inr [(''a'', JStr ''x''), (''z'', JNum (Fin 9))]
     \<and> map_of [(''a'', JStr ''x''), (''z'', JNum (Fin 9))] ''z'' = Some (JNum (Fin 9))"
proof
  fix rt
  have d1: "distinct (map fst [(''a'', JStr ''x''), (''b'', JObj [(''c'', JNum (Fin 5))])])"
    by simp
  have d2: "distinct (map fst [(''a'', JStr ''x''), (''z'', JNum (Fin 9))])"
    by simp
  have n: "getNestedData rt nestedSchema (JObj [(''c'', JNum (Fin 5))]) = Inr [(''c'', JNum (Fin 5))]"
    by (simp add: schema_defs getNestedData.simps member_def assign_def)
  have s1: "declared exampleSchema ''b'' = Some nestedSchema"
    and s2: "stype nestedSchema = Some ''object''"
    and s3: "\<not> additionalProperties exampleSchema"
    and s4: "member [(''a'', JStr ''x''), (''b'', JObj [(''c'', JNum (Fin 5))])] ''b''
               = Some (JObj [(''c'', JNum (Fin 5))])"
    and s5: "additionalProperties openSchema"
    by (simp_all add: schema_defs declared_def member_def)
  note t1 = getNestedData_composes [OF d1 refl, where rt = rt and s = exampleSchema,
      unfolded compose_example sum.case, THEN conjunct1, THEN spec, of "''b''"]
  note t2 = getNestedData_composes [OF d2 refl, where rt = rt and s = openSchema,
      unfolded compose_open_example sum.case, THEN conjunct1, THEN spec, of "''z''"]
  have b: "map_of [(''a'', JStr ''x''), (''b'', JObj [(''c'', JNum (Fin 5))])] ''b''
             = Some (JObj [(''c'', JNum (Fin 5))])"
    using t1 by (simp add: s1 s2 s3 n)
  have z: "map_of [(''a'', JStr ''x''), (''z'', JNum (Fin 9))] ''z'' = Some (JNum (Fin 9))"
    using t2 by (simp add: s5)
  from compose_example [of rt] b compose_open_example [of rt] z
  show "getNestedData rt exampleSchema (JObj [(''a'', JStr ''x''), (''b'', JObj [(''c'', JNum (Fin 5))])])
       = Inr [(''a'', JStr ''x''), (''b'', JObj [(''c'', JNum (Fin 5))])]
     \<and> map_of [(''a'', JStr ''x''), (''b'', JObj [(''c'', JNum (Fin 5))])] ''b''
       = Some (JObj [(''c'', JNum (Fin 5))])
     \<and> getNestedData rt openSchema (JObj [(''a'', JStr ''x''), (''z'', JNum (Fin 9))])
       = Inr [(''a'', JStr ''x''), (''z'', JNum (Fin 9))]
     \<and> map_of [(''a'', JStr ''x''), (''z'', JNum (Fin 9))] ''z'' = Some (JNum (Fin 9))"
    by - (intro conjI, assumption+)
qed

section \<open>A node without a schema\<close>

lemma find_catalog_no_schema:
  assumes "\<forall>b\<in>set cat. bid b = i \<longrightarrow> b_inputSchema b = None"
  shows "(case find (\<lambda>n. bid n = i) cat of None \<Rightarrow> None | Some n \<Rightarrow> b_inputSchema n) = None"
  using assms by (induction cat) auto

text \<open>
  Claim C9.  When no catalog entry with the node's block identifier carries an input
  schema, \<^verbatim>\<open>prepareNodeInputData\<close> logs the condition and returns the empty payload
  instead of raising, and the node is formatted with that empty payload, so the save goes
  on.
\<close>

theorem missing_schema_gives_empty_payload:
  assumes "\<forall>b\<in>set (availableNodes st). bid b = block_id (data node) \<longrightarrow> b_inputSchema b = None"
  shows "prepareNodeInputData rt st node =
           ([''Schema not found for block ID: '' @ block_id (data node)], Inr [])
         \<and> map_sum id input_default (formatNode rt st node) = Inr []"
  using find_catalog_no_schema [OF assms]
  by (simp add: prepareNodeInputData_def formatNode_def)

text \<open>A node of a block the catalog no longer lists: the graph is created with the
  node's empty input.\<close>

theorem missing_schema_save_proceeds:
  "\<forall>rt.
     prepareNodeInputData rt (editor [retiredNode] [] 2 None) retiredNode =
       ([''Schema not found for block ID: retired''], Inr [])
     \<and> map (map input_default \<circ> (\<lambda>c. case c of createGraph p \<Rightarrow> p_nodes p | _ \<Rightarrow> []))
          (remoteCalls (saveAgent rt sampleService (editor [retiredNode] [] 2 None) False)) = [[[]]]"
proof
  fix rt
  from missing_schema_gives_empty_payload [of "editor [retiredNode] [] 2 None" retiredNode rt]
  show "prepareNodeInputData rt (editor [retiredNode] [] 2 None) retiredNode =
       ([''Schema not found for block ID: retired''], Inr [])
     \<and> map (map input_default \<circ> (\<lambda>c. case c of createGraph p \<Rightarrow> p_nodes p | _ \<Rightarrow> []))
          (remoteCalls (saveAgent rt sampleService (editor [retiredNode] [] 2 None) False)) = [[[]]]"
    by (simp add: sample_defs saveAgent_def Let_def payloadOf_def formatNode_def split: sum.splits)
qed

section \<open>The node list after a save\<close>

lemma find_SomeD: "find P xs = Some x \<Longrightarrow> x \<in> set xs \<and> P x"
  by (induction xs) (auto split: if_splits)

lemma find_snoc:
  "find P (xs @ [x]) = (case find P xs of None \<Rightarrow> (if P x then Some x else None) | Some y \<Rightarrow> Some y)"
  by (induction xs) simp_all

lemma set_map_filter_iff:
  "y \<in> set (List.map_filter f xs) \<longleftrightarrow> (\<exists>x\<in>set xs. f x = Some y)"
  by (induction xs) (auto split: option.splits)

lemma recordKeys_apply:
  "recordKeys nds m k =
     (case find (\<lambda>n. nodeKey n = k) (rev nds) of None \<Rightarrow> m k | Some n \<Rightarrow> Some (nid n))"
proof (induction nds arbitrary: m)
  case Nil
  then show ?case by (simp add: recordKeys_def)
next
  case (Cons x xs)
  have "recordKeys (x # xs) m = recordKeys xs (m(nodeKey x \<mapsto> nid x))"
    by (simp add: recordKeys_def)
  then show ?case
    by (simp add: Cons.IH find_snoc split: option.splits)
qed

lemma recordKeys_twice: "recordKeys nds (recordKeys nds m) = recordKeys nds m"
  by (rule ext) (simp add: recordKeys_apply split: option.splits)

lemma repeat_recordKeys:
  "fold (\<lambda>node m. recordKeys nds m) xs m0 = (if xs = [] then m0 else recordKeys nds m0)"
proof (induction xs arbitrary: m0)
  case Nil
  then show ?case by simp
next
  case (Cons x xs)
  show ?case
    by (simp add: Cons.IH recordKeys_twice)
qed

lemma blockIdToNodeIdMap_apply:
  "blockIdToNodeIdMap st k = map_option nid (find (\<lambda>n. nodeKey n = k) (rev (nodes st)))"
  by (cases "nodes st = []")
    (simp_all add: blockIdToNodeIdMap_def repeat_recordKeys recordKeys_apply split: option.splits)

lemma find_unique:
  assumes "x \<in> set xs" and "P x" and "\<forall>y\<in>set xs. P y \<longrightarrow> y = x"
  shows "find P xs = Some x"
  using assms
proof (induction xs)
  case Nil
  then show ?case by simp
next
  case (Cons a xs)
  show ?case
  proof (cases "P a")
    case True
    from bspec [OF Cons.prems(3), of a] True have "a = x" by simp
    with True show ?thesis by simp
  next
    case False
    with Cons.prems(1,2) have m: "x \<in> set xs" by auto
    from Cons.prems(3) have u: "\<forall>y\<in>set xs. P y \<longrightarrow> y = x"
      by (metis list.set_intros(2))
    from Cons.IH [OF m Cons.prems(2) u] False show ?thesis by simp
  qed
qed

lemma position_eqI: "pos_x p = pos_x q \<Longrightarrow> pos_y p = pos_y q \<Longrightarrow> p = (q::position)"
  by (rule position.equality) simp_all

text \<open>Every node of the rebuilt list comes from a response node and a prior node with the same key.\<close>

lemma updatedNodes_member:
  assumes "u \<in> set (updatedNodes st resp)"
  shows "\<exists>r m m'. r \<in> set (gnodes resp) \<and> m \<in> set (nodes st) \<and> nodeKey m = backendKey r
           \<and> m' \<in> set (nodes st) \<and> nid m' = nid m
           \<and> u = m'\<lparr>position := metadata_position r,
                     data := (data m')\<lparr>backend_id := Some (gn_id r)\<rparr>\<rparr>"
proof -
  from assms obtain r where r: "r \<in> set (gnodes resp)"
    and u: "(case blockIdToNodeIdMap st (backendKey r) of
              None \<Rightarrow> None
            | Some frontendNodeId \<Rightarrow>
                (case find (\<lambda>node. nid node = frontendNodeId) (nodes st) of
                   None \<Rightarrow> None
                 | Some frontendNode \<Rightarrow>
                     Some (frontendNode\<lparr>position := metadata_position r,
                                        data := (data frontendNode)\<lparr>backend_id := Some (gn_id r)\<rparr>\<rparr>))) = Some u"
    by (auto simp: updatedNodes_def set_map_filter_iff)
  from u obtain m where m: "find (\<lambda>n. nodeKey n = backendKey r) (rev (nodes st)) = Some m"
    by (auto simp: blockIdToNodeIdMap_apply split: option.splits)
  with u obtain m' where m': "find (\<lambda>node. nid node = nid m) (nodes st) = Some m'"
    and u': "u = m'\<lparr>position := metadata_position r, data := (data m')\<lparr>backend_id := Some (gn_id r)\<rparr>\<rparr>"
    by (auto simp: blockIdToNodeIdMap_apply split: option.splits)
  from find_SomeD [OF m] have "m \<in> set (nodes st)" "nodeKey m = backendKey r"
    by simp_all
  moreover from find_SomeD [OF m'] have "m' \<in> set (nodes st)" "nid m' = nid m"
    by simp_all
  ultimately show ?thesis using r u' by blast
qed

lemma updatedNodes_unique_node:
  assumes n: "n \<in> set (nodes st)"
    and keyU: "\<forall>m\<in>set (nodes st). nodeKey m = nodeKey n \<longrightarrow> m = n"
    and idU: "\<forall>m\<in>set (nodes st). nid m = nid n \<longrightarrow> m = n"
    and r: "r \<in> set (gnodes resp)" and k: "backendKey r = nodeKey n"
  shows "n\<lparr>data := (data n)\<lparr>backend_id := Some (gn_id r)\<rparr>\<rparr> \<in> set (updatedNodes st resp)"
proof -
  have "\<forall>m\<in>set (rev (nodes st)). nodeKey m = nodeKey n \<longrightarrow> m = n"
    using keyU unfolding set_rev .
  moreover have "n \<in> set (rev (nodes st))"
    using n unfolding set_rev .
  ultimately have "find (\<lambda>m. nodeKey m = nodeKey n) (rev (nodes st)) = Some n"
    by (intro find_unique) (assumption, rule refl, assumption)
  then have 1: "blockIdToNodeIdMap st (backendKey r) = Some (nid n)"
    by (simp add: blockIdToNodeIdMap_apply k)
  have 2: "find (\<lambda>node. nid node = nid n) (nodes st) = Some n"
    using idU by (intro find_unique [OF n]) (rule refl, assumption)
  have "metadata_position r = position n"
    using k by (intro position_eqI) (simp_all add: backendKey_def nodeKey_def)
  then have "n\<lparr>position := metadata_position r, data := (data n)\<lparr>backend_id := Some (gn_id r)\<rparr>\<rparr>
             = n\<lparr>data := (data n)\<lparr>backend_id := Some (gn_id r)\<rparr>\<rparr>"
    by simp
  with 1 2 have "(case blockIdToNodeIdMap st (backendKey r) of
              None \<Rightarrow> None
            | Some frontendNodeId \<Rightarrow>
                (case find (\<lambda>node. nid node = frontendNodeId) (nodes st) of
                   None \<Rightarrow> None
                 | Some frontendNode \<Rightarrow>
                     Some (frontendNode\<lparr>position := metadata_position r,
                                        data := (data frontendNode)\<lparr>backend_id := Some (gn_id r)\<rparr>\<rparr>)))
          = Some (n\<lparr>data := (data n)\<lparr>backend_id := Some (gn_id r)\<rparr>\<rparr>)"
    by simp
  with r show ?thesis
    unfolding updatedNodes_def set_map_filter_iff by (rule bexI [rotated])
qed

lemma saveAgent_success:
  assumes "returned (saveAgent rt api st asTemplate) = Inr (Some i)"
    and "savedAgent (after (saveAgent rt api st asTemplate)) = Some resp"
  shows "nodes (after (saveAgent rt api st asTemplate)) = updatedNodes st resp \<and> gid resp = i
         \<and> length (remoteCalls (saveAgent rt api st asTemplate)) = 1"
proof (cases "formattedNodes rt st (nodes st)")
  case (Inl e)
  with assms(1) show ?thesis by (simp add: saveAgent_def)
next
  case (Inr fnodes)
  show ?thesis
  proof (cases "case savedAgent st of None \<Rightarrow> False | Some g \<Rightarrow> deepEquals (payloadOf st fnodes) g")
    case True
    with Inr assms(1) show ?thesis by (simp add: saveAgent_def)
  next
    case False
    let ?call = "case savedAgent st of
                   Some g \<Rightarrow> if is_template g then updateTemplate (gid g) (payloadOf st fnodes)
                             else updateGraph (gid g) (payloadOf st fnodes)
                 | None \<Rightarrow> if asTemplate then createTemplate (payloadOf st fnodes)
                           else createGraph (payloadOf st fnodes)"
    show ?thesis
    proof (cases "api ?call")
      case (Inl e)
      with Inr False assms(1) show ?thesis by (simp add: saveAgent_def Let_def)
    next
      case r: (Inr newSavedAgent)
      with Inr False assms show ?thesis by (simp add: saveAgent_def Let_def)
    qed
  qed
qed

lemma twoNodes_saved:
  "saveAgent rt sampleService twoNodes False =
     \<lparr>after = twoNodes\<lparr>savedAgent := Some (stored (payloadOf twoNodes
                 [\<lparr>gn_id = ''1'', gn_block_id = ''print'', input_default = [], input_nodes = [],
                   output_nodes = [], metadata_position = \<lparr>pos_x = Fin 0, pos_y = Fin 0\<rparr>\<rparr>,
                  \<lparr>gn_id = ''2'', gn_block_id = ''print'', input_default = [], input_nodes = [],
                   output_nodes = [], metadata_position = \<lparr>pos_x = Fin 300, pos_y = Fin 0\<rparr>\<rparr>])),
               nodes := [(printNode ''1'' 0 0 False)\<lparr>data := (data (printNode ''1'' 0 0 False))\<lparr>backend_id := Some ''n-1''\<rparr>\<rparr>,
                         (printNode ''2'' 300 0 False)\<lparr>data := (data (printNode ''2'' 300 0 False))\<lparr>backend_id := Some ''n-2''\<rparr>\<rparr>]\<rparr>,
      remoteCalls = [createGraph (payloadOf twoNodes
                 [\<lparr>gn_id = ''1'', gn_block_id = ''print'', input_default = [], input_nodes = [],
                   output_nodes = [], metadata_position = \<lparr>pos_x = Fin 0, pos_y = Fin 0\<rparr>\<rparr>,
                  \<lparr>gn_id = ''2'', gn_block_id = ''print'', input_default = [], input_nodes = [],
                   output_nodes = [], metadata_position = \<lparr>pos_x = Fin 300, pos_y = Fin 0\<rparr>\<rparr>])],
      returned = Inr (Some ''g-1'')\<rparr>"
  by (simp add: twoNodes_def sample_defs save_defs)

lemma twoNodes_response:
  "savedAgent (after (saveAgent rt sampleService twoNodes False)) =
     Some (stored (payloadOf twoNodes
                 [\<lparr>gn_id = ''1'', gn_block_id = ''print'', input_default = [], input_nodes = [],
                   output_nodes = [], metadata_position = \<lparr>pos_x = Fin 0, pos_y = Fin 0\<rparr>\<rparr>,
                  \<lparr>gn_id = ''2'', gn_block_id = ''print'', input_default = [], input_nodes = [],
                   output_nodes = [], metadata_position = \<lparr>pos_x = Fin 300, pos_y = Fin 0\<rparr>\<rparr>]))"
  by (simp add: twoNodes_saved)

lemma twoNodes_forgotten:
  "returned (saveAgent rt forgetfulService twoNodes False) = Inr (Some ''g-1'')
   \<and> savedAgent (after (saveAgent rt forgetfulService twoNodes False)) =
       Some \<lparr>gid = ''g-1'', gname = ''Agent Name'', gdescription = ''Agent Description'',
             is_template = False,
             gnodes = [\<lparr>gn_id = ''n-1'', gn_block_id = ''print'', input_default = [],
                        input_nodes = [], output_nodes = [],
                        metadata_position = \<lparr>pos_x = Fin 0, pos_y = Fin 0\<rparr>\<rparr>],
             glinks = []\<rparr>
   \<and> map nid (nodes (after (saveAgent rt forgetfulService twoNodes False))) = [''1'']"
  by (simp add: twoNodes_def sample_defs save_defs)

text \<open>The editor after the labelled graph has been loaded and a print node added: the
  loaded node and the added node both carry the identifier \<^verbatim>\<open>1\<close>.\<close>

lemma loadedThenAdded_nodes:
  "map (\<lambda>node. (nid node, position node, hardcodedValues (data node))) (nodes loadedThenAdded)
   = [(''1'', \<lparr>pos_x = Fin 10, pos_y = Fin 20\<rparr>, [(''text'', JStr ''hello'')]),
      (''1'', \<lparr>pos_x = Fin 300, pos_y = Fin 0\<rparr>, [])]"
  by (simp add: loadedThenAdded_def loadGraph_def addNode_def sample_defs toString.simps Let_def)

text \<open>
  Claim C3, as stated: after a successful save a node with a locally generated identifier
  carries the service-assigned identifier, key collisions apart.  Two findings.  The save
  never replaces the \<^verbatim>\<open>id\<close> of a node: it stores the identifier of the response node in
  \<^verbatim>\<open>data.backend_id\<close>; two print nodes \<^verbatim>\<open>1\<close> and \<^verbatim>\<open>2\<close>, saved to a service that
  answers with the nodes \<^verbatim>\<open>n-1\<close> and \<^verbatim>\<open>n-2\<close>, are still \<^verbatim>\<open>1\<close> and \<^verbatim>\<open>2\<close>.  And
  distinct keys are not enough: the key map leads to an identifier, and the node is then
  looked up by that identifier.  After loading a graph whose node is \<^verbatim>\<open>1\<close> and adding a
  node, which is \<^verbatim>\<open>1\<close> as well, the save puts a copy of the loaded node, input
  \<^verbatim>\<open>{text: "hello"}\<close> included, in the place of the added one.
\<close>

theorem save_keeps_identifiers_and_confuses_equal_ones:
  "\<forall>rt.
     map (\<lambda>node. (nid node, backend_id (data node)))
         (nodes (after (saveAgent rt sampleService twoNodes False)))
       = [(''1'', Some ''n-1''), (''2'', Some ''n-2'')]
     \<and> map (\<lambda>node. (nid node, position node, hardcodedValues (data node))) (nodes loadedThenAdded)
       = [(''1'', \<lparr>pos_x = Fin 10, pos_y = Fin 20\<rparr>, [(''text'', JStr ''hello'')]),
          (''1'', \<lparr>pos_x = Fin 300, pos_y = Fin 0\<rparr>, [])]
     \<and> map nodeKey (nodes loadedThenAdded)
       = [(''print'', Fin 10, Fin 20), (''print'', Fin 300, Fin 0)]
     \<and> returned (saveAgent rt sampleService loadedThenAdded False) = Inr (Some ''g-1'')
     \<and> map (\<lambda>node. (nid node, position node, hardcodedValues (data node)))
           (nodes (after (saveAgent rt sampleService loadedThenAdded False)))
       = [(''1'', \<lparr>pos_x = Fin 10, pos_y = Fin 20\<rparr>, [(''text'', JStr ''hello'')]),
          (''1'', \<lparr>pos_x = Fin 300, pos_y = Fin 0\<rparr>, [(''text'', JStr ''hello'')])]"
proof
  fix rt
  have a: "map (\<lambda>node. (nid node, backend_id (data node)))
         (nodes (after (saveAgent rt sampleService twoNodes False)))
       = [(''1'', Some ''n-1''), (''2'', Some ''n-2'')]"
    by (simp add: twoNodes_saved printNode_def)
  have b: "map nodeKey (nodes loadedThenAdded)
       = [(''print'', Fin 10, Fin 20), (''print'', Fin 300, Fin 0)]"
    by (simp add: loadedThenAdded_def loadGraph_def addNode_def sample_defs toString.simps
        Let_def nodeKey_def)
  have c: "returned (saveAgent rt sampleService loadedThenAdded False) = Inr (Some ''g-1'')
     \<and> map (\<lambda>node. (nid node, position node, hardcodedValues (data node)))
           (nodes (after (saveAgent rt sampleService loadedThenAdded False)))
       = [(''1'', \<lparr>pos_x = Fin 10, pos_y = Fin 20\<rparr>, [(''text'', JStr ''hello'')]),
          (''1'', \<lparr>pos_x = Fin 300, pos_y = Fin 0\<rparr>, [(''text'', JStr ''hello'')])]"
    by (simp add: loadedThenAdded_def loadGraph_def addNode_def sample_defs toString.simps
        save_defs)
  from a loadedThenAdded_nodes b c [THEN conjunct1] c [THEN conjunct2]
  show "map (\<lambda>node. (nid node, backend_id (data node)))
         (nodes (after (saveAgent rt sampleService twoNodes False)))
       = [(''1'', Some ''n-1''), (''2'', Some ''n-2'')]
     \<and> map (\<lambda>node. (nid node, position node, hardcodedValues (data node))) (nodes loadedThenAdded)
       = [(''1'', \<lparr>pos_x = Fin 10, pos_y = Fin 20\<rparr>, [(''text'', JStr ''hello'')]),
          (''1'', \<lparr>pos_x = Fin 300, pos_y = Fin 0\<rparr>, [])]
     \<and> map nodeKey (nodes loadedThenAdded)
       = [(''print'', Fin 10, Fin 20), (''print'', Fin 300, Fin 0)]
     \<and> returned (saveAgent rt sampleService loadedThenAdded False) = Inr (Some ''g-1'')
     \<and> map (\<lambda>node. (nid node, position node, hardcodedValues (data node)))
           (nodes (after (saveAgent rt sampleService loadedThenAdded False)))
       = [(''1'', \<lparr>pos_x = Fin 10, pos_y = Fin 20\<rparr>, [(''text'', JStr ''hello'')]),
          (''1'', \<lparr>pos_x = Fin 300, pos_y = Fin 0\<rparr>, [(''text'', JStr ''hello'')])]"
    by - (intro conjI, assumption+)
qed

text \<open>
  Claim C3, amended.  After a successful save, a node whose composite key no other node
  shares, and whose identifier no other node shares, keeps its \<^verbatim>\<open>id\<close> and everything
  else but \<^verbatim>\<open>data.backend_id\<close>: the new node list holds it with the identifier of every
  response node with its key as \<^verbatim>\<open>backend_id\<close>, and it holds no other node with its
  \<^verbatim>\<open>id\<close>.  Nodes whose key or identifier collides with another node's are not covered;
  identifiers do not collide in an editor built by adding, copying and pasting alone (last
  section).
\<close>

theorem saved_node_carries_backend_id:
  assumes "returned (saveAgent rt api st asTemplate) = Inr (Some i)"
    and "savedAgent (after (saveAgent rt api st asTemplate)) = Some resp"
    and "n \<in> set (nodes st)"
    and "\<forall>m\<in>set (nodes st). nodeKey m = nodeKey n \<longrightarrow> m = n"
    and "\<forall>m\<in>set (nodes st). nid m = nid n \<longrightarrow> m = n"
    and "r \<in> set (gnodes resp)"
    and "backendKey r = nodeKey n"
  shows "n\<lparr>data := (data n)\<lparr>backend_id := Some (gn_id r)\<rparr>\<rparr>
           \<in> set (nodes (after (saveAgent rt api st asTemplate)))
         \<and> (\<forall>u\<in>set (nodes (after (saveAgent rt api st asTemplate))).
               nid u = nid n \<longrightarrow>
               (\<exists>r'\<in>set (gnodes resp). backendKey r' = nodeKey n
                  \<and> u = n\<lparr>data := (data n)\<lparr>backend_id := Some (gn_id r')\<rparr>\<rparr>))"
proof -
  from saveAgent_success [OF assms(1,2)]
  have a: "nodes (after (saveAgent rt api st asTemplate)) = updatedNodes st resp" by simp
  have 1: "n\<lparr>data := (data n)\<lparr>backend_id := Some (gn_id r)\<rparr>\<rparr> \<in> set (updatedNodes st resp)"
    by (rule updatedNodes_unique_node [OF assms(3-7)])
  have 2: "\<exists>r'\<in>set (gnodes resp). backendKey r' = nodeKey n
             \<and> u = n\<lparr>data := (data n)\<lparr>backend_id := Some (gn_id r')\<rparr>\<rparr>"
    if u: "u \<in> set (updatedNodes st resp)" and i: "nid u = nid n" for u
  proof -
    from updatedNodes_member [OF u] obtain r' m m'
      where r': "r' \<in> set (gnodes resp)" and m: "m \<in> set (nodes st)"
        and k: "nodeKey m = backendKey r'" and m': "m' \<in> set (nodes st)" and j: "nid m' = nid m"
        and e: "u = m'\<lparr>position := metadata_position r',
                        data := (data m')\<lparr>backend_id := Some (gn_id r')\<rparr>\<rparr>"
      by blast
    from e i have "nid m' = nid n" by simp
    with bspec [OF assms(5) m'] have 3: "m' = n" by blast
    with j have "nid m = nid n" by simp
    with bspec [OF assms(5) m] have 4: "m = n" by blast
    have "metadata_position r' = position n"
      using k 4 by (intro position_eqI) (simp_all add: backendKey_def nodeKey_def)
    with e 3 have "u = n\<lparr>data := (data n)\<lparr>backend_id := Some (gn_id r')\<rparr>\<rparr>" by simp
    with r' k 4 show ?thesis by (intro bexI [of _ r']) simp_all
  qed
  from 1 2 show ?thesis unfolding a by blast
qed

text \<open>Two print nodes saved to the service that assigns new identifiers.\<close>

theorem saved_node_carries_backend_id_witness:
  "\<forall>rt.
     (printNode ''2'' 300 0 False)\<lparr>data := (data (printNode ''2'' 300 0 False))\<lparr>backend_id := Some ''n-2''\<rparr>\<rparr>
       \<in> set (nodes (after (saveAgent rt sampleService twoNodes False)))
     \<and> filter (\<lambda>u. nid u = ''2'') (nodes (after (saveAgent rt sampleService twoNodes False)))
       = [(printNode ''2'' 300 0 False)\<lparr>data := (data (printNode ''2'' 300 0 False))\<lparr>backend_id := Some ''n-2''\<rparr>\<rparr>]"
proof
  fix rt
  let ?r = "\<lparr>gn_id = ''n-2'', gn_block_id = ''print'', input_default = [], input_nodes = [],
             output_nodes = [], metadata_position = \<lparr>pos_x = Fin 300, pos_y = Fin 0\<rparr>\<rparr>"
  have 1: "returned (saveAgent rt sampleService twoNodes False) = Inr (Some ''g-1'')"
    by (simp add: twoNodes_saved)
  have 3: "printNode ''2'' 300 0 False \<in> set (nodes twoNodes)"
    by (simp add: twoNodes_def editor_def)
  have 4: "\<forall>m\<in>set (nodes twoNodes). nodeKey m = nodeKey (printNode ''2'' 300 0 False)
             \<longrightarrow> m = printNode ''2'' 300 0 False"
    by (simp add: twoNodes_def editor_def printNode_def nodeKey_def)
  have 5: "\<forall>m\<in>set (nodes twoNodes). nid m = nid (printNode ''2'' 300 0 False)
             \<longrightarrow> m = printNode ''2'' 300 0 False"
    by (simp add: twoNodes_def editor_def printNode_def)
  have 6: "?r \<in> set (gnodes (stored (payloadOf twoNodes
                 [\<lparr>gn_id = ''1'', gn_block_id = ''print'', input_default = [], input_nodes = [],
                   output_nodes = [], metadata_position = \<lparr>pos_x = Fin 0, pos_y = Fin 0\<rparr>\<rparr>,
                  \<lparr>gn_id = ''2'', gn_block_id = ''print'', input_default = [], input_nodes = [],
                   output_nodes = [], metadata_position = \<lparr>pos_x = Fin 300, pos_y = Fin 0\<rparr>\<rparr>])))"
    by (simp add: stored_def payloadOf_def)
  have 7: "backendKey ?r = nodeKey (printNode ''2'' 300 0 False)"
    by (simp add: backendKey_def nodeKey_def printNode_def)
  from saved_node_carries_backend_id [OF 1 twoNodes_response 3 4 5 6 7]
  have "(printNode ''2'' 300 0 False)\<lparr>data := (data (printNode ''2'' 300 0 False))\<lparr>backend_id := Some ''n-2''\<rparr>\<rparr>
       \<in> set (nodes (after (saveAgent rt sampleService twoNodes False)))"
    by simp
  moreover have "filter (\<lambda>u. nid u = ''2'') (nodes (after (saveAgent rt sampleService twoNodes False)))
       = [(printNode ''2'' 300 0 False)\<lparr>data := (data (printNode ''2'' 300 0 False))\<lparr>backend_id := Some ''n-2''\<rparr>\<rparr>]"
    by (simp add: twoNodes_saved printNode_def)
  ultimately show "(printNode ''2'' 300 0 False)\<lparr>data := (data (printNode ''2'' 300 0 False))\<lparr>backend_id := Some ''n-2''\<rparr>\<rparr>
       \<in> set (nodes (after (saveAgent rt sampleService twoNodes False)))
     \<and> filter (\<lambda>u. nid u = ''2'') (nodes (after (saveAgent rt sampleService twoNodes False)))
       = [(printNode ''2'' 300 0 False)\<lparr>data := (data (printNode ''2'' 300 0 False))\<lparr>backend_id := Some ''n-2''\<rparr>\<rparr>]"
    by (rule conjI)
qed

text \<open>
  Claim C10, as stated: after a successful save the nodes are exactly the prior nodes
  whose key matches some response node.  With colliding keys this fails: a print node
  copied and pasted twice gives two copies at the same position; the service stores all
  three nodes, and the save keeps node \<^verbatim>\<open>3\<close> twice and drops node \<^verbatim>\<open>2\<close>, whose key
  matches two response nodes.
\<close>

theorem colliding_keys_lose_a_node:
  "\<forall>rt.
   (let out = saveAgent rt sampleService twicePasted False
    in (map nid (nodes twicePasted),
        map nodeKey (nodes twicePasted),
        returned out,
        map (\<lambda>r. (gn_id r, backendKey r)) (case savedAgent (after out) of None \<Rightarrow> [] | Some g \<Rightarrow> gnodes g),
        map nid (nodes (after out))))
   = ([''1'', ''2'', ''3''],
      [(''print'', Fin 0, Fin 0), (''print'', Fin 20, Fin 20), (''print'', Fin 20, Fin 20)],
      Inr (Some ''g-1''),
      [(''n-1'', (''print'', Fin 0, Fin 0)), (''n-2'', (''print'', Fin 20, Fin 20)),
       (''n-3'', (''print'', Fin 20, Fin 20))],
      [''1'', ''3'', ''3''])"
  by (simp add: twicePasted_def handleKeyDown_def pasteNodes_def pasteEdges_def toString.simps
      sample_defs save_defs)

text \<open>
  Claim C10, amended.  When identifiers and composite keys are unique among the nodes,
  then after a successful save the nodes are exactly the prior nodes whose key matches
  some response node, each carrying that response node's identifier as
  \<^verbatim>\<open>backend_id\<close>; a node whose key matches no response node is gone.
\<close>

theorem saved_nodes_are_the_matched_nodes:
  assumes "returned (saveAgent rt api st asTemplate) = Inr (Some i)"
    and "savedAgent (after (saveAgent rt api st asTemplate)) = Some resp"
    and idU: "\<forall>m\<in>set (nodes st). \<forall>m'\<in>set (nodes st). nid m = nid m' \<longrightarrow> m = m'"
    and keyU: "\<forall>m\<in>set (nodes st). \<forall>m'\<in>set (nodes st). nodeKey m = nodeKey m' \<longrightarrow> m = m'"
  shows "set (nodes (after (saveAgent rt api st asTemplate))) =
           {n\<lparr>data := (data n)\<lparr>backend_id := Some (gn_id r)\<rparr>\<rparr> | n r.
              n \<in> set (nodes st) \<and> r \<in> set (gnodes resp) \<and> backendKey r = nodeKey n}
         \<and> (\<forall>n\<in>set (nodes st). (\<forall>r\<in>set (gnodes resp). backendKey r \<noteq> nodeKey n)
               \<longrightarrow> nid n \<notin> nid ` set (nodes (after (saveAgent rt api st asTemplate))))"
proof -
  let ?M = "{n\<lparr>data := (data n)\<lparr>backend_id := Some (gn_id r)\<rparr>\<rparr> | n r.
              n \<in> set (nodes st) \<and> r \<in> set (gnodes resp) \<and> backendKey r = nodeKey n}"
  from saveAgent_success [OF assms(1,2)]
  have a: "nodes (after (saveAgent rt api st asTemplate)) = updatedNodes st resp" by simp
  have sub: "u \<in> ?M" if "u \<in> set (updatedNodes st resp)" for u
  proof -
    from updatedNodes_member [OF that] obtain r m m'
      where r: "r \<in> set (gnodes resp)" and m: "m \<in> set (nodes st)"
        and k: "nodeKey m = backendKey r" and m': "m' \<in> set (nodes st)" and i: "nid m' = nid m"
        and u: "u = m'\<lparr>position := metadata_position r,
                        data := (data m')\<lparr>backend_id := Some (gn_id r)\<rparr>\<rparr>"
      by blast
    from bspec [OF bspec [OF idU m'] m] i have e: "m' = m" by blast
    have "metadata_position r = position m"
      using k by (intro position_eqI) (simp_all add: backendKey_def nodeKey_def)
    with u e have "u = m\<lparr>data := (data m)\<lparr>backend_id := Some (gn_id r)\<rparr>\<rparr>" by simp
    with m r k show ?thesis by (intro CollectI exI [of _ m] exI [of _ r]) simp
  qed
  have sup: "u \<in> set (updatedNodes st resp)" if "u \<in> ?M" for u
  proof -
    from that obtain n r where n: "n \<in> set (nodes st)" and r: "r \<in> set (gnodes resp)"
      and k: "backendKey r = nodeKey n"
      and u: "u = n\<lparr>data := (data n)\<lparr>backend_id := Some (gn_id r)\<rparr>\<rparr>"
      by blast
    from keyU n have 1: "\<forall>m\<in>set (nodes st). nodeKey m = nodeKey n \<longrightarrow> m = n" by blast
    from idU n have 2: "\<forall>m\<in>set (nodes st). nid m = nid n \<longrightarrow> m = n" by blast
    from updatedNodes_unique_node [OF n 1 2 r k] u show ?thesis by simp
  qed
  from sub sup have eq: "set (updatedNodes st resp) = ?M" by blast
  have gone: "nid n \<notin> nid ` set (updatedNodes st resp)"
    if n: "n \<in> set (nodes st)" and none: "\<forall>r\<in>set (gnodes resp). backendKey r \<noteq> nodeKey n" for n
  proof
    assume "nid n \<in> nid ` set (updatedNodes st resp)"
    then obtain u where "u \<in> ?M" and un: "nid u = nid n"
      unfolding eq by force
    then obtain n' r where n': "n' \<in> set (nodes st)" and r: "r \<in> set (gnodes resp)"
      and k: "backendKey r = nodeKey n'"
      and u: "u = n'\<lparr>data := (data n')\<lparr>backend_id := Some (gn_id r)\<rparr>\<rparr>"
      by blast
    from u un have "nid n' = nid n" by simp
    with bspec [OF bspec [OF idU n'] n] have "n' = n" by blast
    with k none r show False by blast
  qed
  from eq gone show ?thesis unfolding a by blast
qed

text \<open>The service that keeps the first node only: the second node is removed.\<close>

theorem saved_nodes_are_the_matched_nodes_witness:
  "\<forall>rt.
     nid (printNode ''2'' 300 0 False)
       \<notin> nid ` set (nodes (after (saveAgent rt forgetfulService twoNodes False)))
     \<and> map nid (nodes (after (saveAgent rt forgetfulService twoNodes False))) = [''1'']"
proof
  fix rt
  let ?resp = "\<lparr>gid = ''g-1'', gname = ''Agent Name'', gdescription = ''Agent Description'',
             is_template = False,
             gnodes = [\<lparr>gn_id = ''n-1'', gn_block_id = ''print'', input_default = [],
                        input_nodes = [], output_nodes = [],
                        metadata_position = \<lparr>pos_x = Fin 0, pos_y = Fin 0\<rparr>\<rparr>],
             glinks = []\<rparr>"
  have 1: "returned (saveAgent rt forgetfulService twoNodes False) = Inr (Some ''g-1'')"
    and 2: "savedAgent (after (saveAgent rt forgetfulService twoNodes False)) = Some ?resp"
    using twoNodes_forgotten by simp_all
  have idU: "\<forall>m\<in>set (nodes twoNodes). \<forall>m'\<in>set (nodes twoNodes). nid m = nid m' \<longrightarrow> m = m'"
    by (simp add: twoNodes_def editor_def printNode_def)
  have keyU: "\<forall>m\<in>set (nodes twoNodes). \<forall>m'\<in>set (nodes twoNodes). nodeKey m = nodeKey m' \<longrightarrow> m = m'"
    by (simp add: twoNodes_def editor_def printNode_def nodeKey_def)
  have n: "printNode ''2'' 300 0 False \<in> set (nodes twoNodes)"
    by (simp add: twoNodes_def editor_def)
  have none: "\<forall>r\<in>set (gnodes ?resp). backendKey r \<noteq> nodeKey (printNode ''2'' 300 0 False)"
    by (simp add: backendKey_def nodeKey_def printNode_def)
  from saved_nodes_are_the_matched_nodes [OF 1 2 idU keyU]
  have "\<forall>n\<in>set (nodes twoNodes). (\<forall>r\<in>set (gnodes ?resp). backendKey r \<noteq> nodeKey n)
          \<longrightarrow> nid n \<notin> nid ` set (nodes (after (saveAgent rt forgetfulService twoNodes False)))"
    by (rule conjunct2)
  from bspec [OF this n] none twoNodes_forgotten [of rt]
  show "nid (printNode ''2'' 300 0 False)
       \<notin> nid ` set (nodes (after (saveAgent rt forgetfulService twoNodes False)))
     \<and> map nid (nodes (after (saveAgent rt forgetfulService twoNodes False))) = [''1'']"
    by blast
qed
section \<open>Pasted nodes\<close>

lemma digit_roundtrip: "d < 10 \<Longrightarrow> digitValue (''0123456789'' ! d) = d"
proof -
  assume "d < 10"
  then consider "d = 0" | "d = 1" | "d = 2" | "d = 3" | "d = 4" | "d = 5" | "d = 6" | "d = 7"
    | "d = 8" | "d = 9"
    by (auto simp: numeral_eq_Suc less_Suc_eq)
  then show ?thesis
    by cases (simp_all add: digitValue_def)
qed

lemma fromDigits_snoc: "fromDigits (s @ [c]) = 10 * fromDigits s + digitValue c"
  by (simp add: fromDigits_def)

lemma fromDigits_toString: "fromDigits (toString n) = n"
proof (induction n rule: toString.induct)
  case (1 n)
  show ?case
  proof (cases "n < 10")
    case True
    then have "toString n = [''0123456789'' ! n]"
      by (subst toString.simps) simp
    with digit_roundtrip [OF True] show ?thesis
      by (simp add: fromDigits_def)
  next
    case False
    then have "toString n = toString (n div 10) @ [''0123456789'' ! (n mod 10)]"
      by (subst toString.simps) simp
    moreover have "digitValue (''0123456789'' ! (n mod 10)) = n mod 10"
      by (rule digit_roundtrip) simp
    ultimately show ?thesis
      using "1.IH" [OF False] by (simp add: fromDigits_snoc)
  qed
qed

lemma toString_inj: "toString a = toString b \<Longrightarrow> a = b"
  by (metis fromDigits_toString)

lemma length_pasteNodes: "length (pasteNodes st) = length (copiedNodes st)"
  by (simp add: pasteNodes_def)

lemma nth_pasteNodes:
  assumes "i < length (copiedNodes st)"
  shows "pasteNodes st ! i =
           (copiedNodes st ! i)
             \<lparr>nid := toString (nodeId st + i),
              position := \<lparr>pos_x = d_add (pos_x (position (copiedNodes st ! i))) (Fin 20),
                            pos_y = d_add (pos_y (position (copiedNodes st ! i))) (Fin 20)\<rparr>,
              data := (data (copiedNodes st ! i))\<lparr>status := None, output_data := None\<rparr>\<rparr>"
  using assms by (simp add: pasteNodes_def nth_enumerate_eq)

lemma nid_pasteNodes:
  "map nid (pasteNodes st) = map (\<lambda>i. toString (nodeId st + i)) [0..<length (copiedNodes st)]"
  by (rule nth_equalityI) (simp_all add: length_pasteNodes nth_pasteNodes)

lemma distinct_pasteNodes: "distinct (map nid (pasteNodes st))"
  unfolding nid_pasteNodes
  by (simp add: distinct_map inj_on_def) (metis toString_inj add_left_cancel)

lemma fresh_pasteNodes:
  assumes "counterAhead st"
  shows "set (map nid (pasteNodes st)) \<inter> set (map nid (nodes st)) = {}"
proof -
  have "i \<notin> set (map nid (nodes st))" if "i \<in> set (map nid (pasteNodes st))" for i
  proof -
    from that obtain j where "i = toString (nodeId st + j)"
      unfolding nid_pasteNodes by auto
    with assms show ?thesis
      unfolding counterAhead_def by (metis imageE le_add1 list.set_map)
  qed
  then show ?thesis by blast
qed

lemma paste_state:
  assumes "ctrlKey event \<or> metaKey event"
    and "ev_key event = ''v'' \<or> ev_key event = ''V''"
    and "copiedNodes st \<noteq> []"
  shows "handleKeyDown now st event =
           st\<lparr>nodes := map (\<lambda>node. node\<lparr>selected := False\<rparr>) (nodes st) @ pasteNodes st,
              nodeId := nodeId st + length (copiedNodes st),
              edges := edges st @ pasteEdges now st\<rparr>"
  using assms by (auto simp: handleKeyDown_def)







text \<open>The counter is ahead in a fresh editor, and adding a node, copying and pasting
  keep it ahead.\<close>

lemma counterAhead_initial: "counterAhead (editor [] [] 1 None)"
  by (simp add: counterAhead_def editor_def)

lemma addNode_keeps_counterAhead:
  assumes "counterAhead st"
  shows "counterAhead (addNode pos st blockId nodeType)"
proof (cases "find (\<lambda>b. bid b = blockId) (availableNodes st)")
  case None
  with assms show ?thesis by (simp add: addNode_def)
next
  case (Some b)
  have "toString (nodeId st) \<noteq> toString k" if "Suc (nodeId st) \<le> k" for k
    using that toString_inj [of "nodeId st" k] by auto
  with assms Some show ?thesis
    by (auto simp: addNode_def counterAhead_def Let_def)
qed

lemma paste_keeps_counterAhead:
  assumes "counterAhead st"
  shows "counterAhead (handleKeyDown now st event)"
proof (cases "(ctrlKey event \<or> metaKey event) \<and> (ev_key event = ''v'' \<or> ev_key event = ''V'')
              \<and> copiedNodes st \<noteq> []")
  case True
  then have p: "handleKeyDown now st event =
           st\<lparr>nodes := map (\<lambda>node. node\<lparr>selected := False\<rparr>) (nodes st) @ pasteNodes st,
              nodeId := nodeId st + length (copiedNodes st),
              edges := edges st @ pasteEdges now st\<rparr>"
    by (intro paste_state) simp_all
  have old: "nid node \<noteq> toString k"
    if "node \<in> set (nodes st)" and "nodeId st + length (copiedNodes st) \<le> k" for node k
    using assms that unfolding counterAhead_def by (meson add_leD1)
  have new: "nid node \<noteq> toString k"
    if "node \<in> set (pasteNodes st)" and "nodeId st + length (copiedNodes st) \<le> k" for node k
  proof -
    from that(1) have "nid node \<in> set (map nid (pasteNodes st))" by simp
    then obtain j where "j < length (copiedNodes st)" and "nid node = toString (nodeId st + j)"
      unfolding nid_pasteNodes by auto
    with that(2) toString_inj [of "nodeId st + j" k] show ?thesis by auto
  qed
  from old new show ?thesis
    unfolding p counterAhead_def by auto
next
  case False
  then have "nodes (handleKeyDown now st event) = nodes st
             \<and> nodeId (handleKeyDown now st event) = nodeId st"
    by (auto simp: handleKeyDown_def Let_def)
  with assms show ?thesis by (simp add: counterAhead_def)
qed

text \<open>Identifiers are pairwise distinct in a fresh editor, and adding, copying and
  pasting keep them so as long as the counter is ahead: in an editor built by these steps
  alone no two nodes share an identifier.\<close>

lemma distinct_ids_initial: "distinct (map nid (nodes (editor [] [] 1 None)))"
  by (simp add: editor_def)

lemma addNode_keeps_distinct_ids:
  assumes "counterAhead st" and "distinct (map nid (nodes st))"
  shows "distinct (map nid (nodes (addNode pos st blockId nodeType)))"
proof (cases "find (\<lambda>b. bid b = blockId) (availableNodes st)")
  case None
  with assms(2) show ?thesis by (simp add: addNode_def)
next
  case (Some b)
  have "toString (nodeId st) \<notin> nid ` set (nodes st)"
    using assms(1) unfolding counterAhead_def by (metis imageE order_refl)
  with assms(2) Some show ?thesis
    by (simp add: addNode_def Let_def)
qed

lemma paste_keeps_distinct_ids:
  assumes "counterAhead st" and "distinct (map nid (nodes st))"
  shows "distinct (map nid (nodes (handleKeyDown now st event)))"
proof (cases "(ctrlKey event \<or> metaKey event) \<and> (ev_key event = ''v'' \<or> ev_key event = ''V'')
              \<and> copiedNodes st \<noteq> []")
  case True
  then have p: "handleKeyDown now st event =
           st\<lparr>nodes := map (\<lambda>node. node\<lparr>selected := False\<rparr>) (nodes st) @ pasteNodes st,
              nodeId := nodeId st + length (copiedNodes st),
              edges := edges st @ pasteEdges now st\<rparr>"
    by (intro paste_state) simp_all
  have "map nid (nodes (handleKeyDown now st event)) = map nid (nodes st) @ map nid (pasteNodes st)"
    unfolding p by (simp add: comp_def)
  with assms(2) distinct_pasteNodes [of st] fresh_pasteNodes [OF assms(1)]
  show ?thesis
    by (simp add: Int_commute)
next
  case False
  then have "nodes (handleKeyDown now st event) = nodes st"
    by (auto simp: handleKeyDown_def Let_def)
  with assms(2) show ?thesis by simp
qed

lemma distinct_ids_unique:
  assumes "distinct (map nid nds)" and "n \<in> set nds"
  shows "\<forall>m\<in>set nds. nid m = nid n \<longrightarrow> m = n"
  using assms by (meson distinct_map inj_onD)

end
